theory Spec2Isabelle
  imports Main "HOL-Library.List_Lexorder" "HOL-Library.Sublist" "HOL-Library.AList"
begin

section \<open>Python text\<close>

text \<open>
  A Python \<^verbatim>\<open>str\<close> is a sequence of Unicode code points; it is modelled as a list of
  natural numbers, one per code point, so that \<open>length\<close> counts what Python's \<^verbatim>\<open>len\<close>
  counts and the bullet U+2022 of the display name is one element. The character tables
  (white space, line boundaries, case, word characters) follow CPython's; case and word
  characters are given for ASCII and for the code points U+01F0, U+030C and U+2022, which
  is the fragment the statements below speak about.
\<close>

type_synonym ustr = "nat list"

definition lit :: "string \<Rightarrow> ustr" where
  "lit s = map of_char s"

definition ascii_text :: "ustr \<Rightarrow> bool" where
  "ascii_text s = list_all (\<lambda>c. c < 128) s"

text \<open>\<^verbatim>\<open>str.isspace\<close> for one code point: the complete list of Unicode white space
  (bidirectional classes WS, B, S and category Zs).\<close>

definition py_isspace :: "nat \<Rightarrow> bool" where
  "py_isspace c = ((9 \<le> c \<and> c \<le> 13) \<or> (28 \<le> c \<and> c \<le> 32) \<or> c = 133 \<or> c = 160
      \<or> c = 5760 \<or> (8192 \<le> c \<and> c \<le> 8202) \<or> c = 8232 \<or> c = 8233 \<or> c = 8239
      \<or> c = 8287 \<or> c = 12288)"

definition is_upper_ascii :: "nat \<Rightarrow> bool" where
  "is_upper_ascii c = (65 \<le> c \<and> c \<le> 90)"

definition is_lower_ascii :: "nat \<Rightarrow> bool" where
  "is_lower_ascii c = (97 \<le> c \<and> c \<le> 122)"

definition is_digit_ascii :: "nat \<Rightarrow> bool" where
  "is_digit_ascii c = (48 \<le> c \<and> c \<le> 57)"

text \<open>\<^verbatim>\<open>str.lower\<close>: on the modelled code points only the ASCII capitals change.\<close>

definition lower_cp :: "nat \<Rightarrow> nat" where
  "lower_cp c = (if is_upper_ascii c then c + 32 else c)"

definition py_lower :: "ustr \<Rightarrow> ustr" where
  "py_lower s = map lower_cp s"

text \<open>\<^verbatim>\<open>str.strip()\<close> removes white space at both ends.\<close>

definition py_strip :: "ustr \<Rightarrow> ustr" where
  "py_strip s = rev (dropWhile py_isspace (rev (dropWhile py_isspace s)))"

text \<open>\<^verbatim>\<open>str.split()\<close> without argument: the maximal runs of non-space characters.\<close>

fun split_ws_aux :: "ustr \<Rightarrow> ustr \<Rightarrow> ustr list" where
  "split_ws_aux cur [] = (if cur = [] then [] else [cur])"
| "split_ws_aux cur (c # cs) =
     (if py_isspace c
      then (if cur = [] then split_ws_aux [] cs else cur # split_ws_aux [] cs)
      else split_ws_aux (cur @ [c]) cs)"

definition py_split :: "ustr \<Rightarrow> ustr list" where
  "py_split s = split_ws_aux [] s"

text \<open>\<^verbatim>\<open>sep.join(parts)\<close>.\<close>

fun py_join :: "ustr \<Rightarrow> ustr list \<Rightarrow> ustr" where
  "py_join sep [] = []"
| "py_join sep [p] = p"
| "py_join sep (p # q # ps) = p @ sep @ py_join sep (q # ps)"

text \<open>\<^verbatim>\<open>re.sub(r"\s+", " ", txt)\<close>: every maximal run of white space becomes one space.\<close>

function collapse_ws :: "ustr \<Rightarrow> ustr" where
  "collapse_ws [] = []"
| "collapse_ws (c # cs) =
     (if py_isspace c then 32 # collapse_ws (dropWhile py_isspace cs)
      else c # collapse_ws cs)"
  by pat_completeness auto
termination
  by (relation "measure length") (auto simp: le_imp_less_Suc length_dropWhile_le)

text \<open>The truth value Python gives an \<^verbatim>\<open>Optional[str]\<close>: \<^verbatim>\<open>None\<close> and the empty
  string are false.\<close>

definition truthy :: "ustr option \<Rightarrow> bool" where
  "truthy m = (case m of None \<Rightarrow> False | Some s \<Rightarrow> s \<noteq> [])"

text \<open>\<^verbatim>\<open>parts[-2:]\<close> and the substring test \<^verbatim>\<open>key in txt\<close>.\<close>

definition last_two :: "'a list \<Rightarrow> 'a list" where
  "last_two xs = drop (length xs - 2) xs"

definition py_in :: "ustr \<Rightarrow> ustr \<Rightarrow> bool" where
  "py_in key txt = sublist key txt"

section \<open>Slugs and the team tables\<close>

text \<open>\<^verbatim>\<open>_slug\<close>: lower-case, then delete everything that is not \<^verbatim>\<open>[a-z0-9]\<close>.\<close>

definition slug :: "ustr \<Rightarrow> ustr" where
  "slug s = filter (\<lambda>c. is_lower_ascii c \<or> is_digit_ascii c) (py_lower s)"

definition NFL_TEAM_SLUGS :: "(ustr \<times> ustr) list" where
  "NFL_TEAM_SLUGS =
    [(lit ''arizona cardinals'', lit ''arizonacardinals''),
     (lit ''atlanta falcons'', lit ''atlantafalcons''),
     (lit ''baltimore ravens'', lit ''baltimoreravens''),
     (lit ''buffalo bills'', lit ''buffalobills''),
     (lit ''carolina panthers'', lit ''carolinapanthers''),
     (lit ''chicago bears'', lit ''chicagobears''),
     (lit ''cincinnati bengals'', lit ''cincinnatibengals''),
     (lit ''cleveland browns'', lit ''clevelandbrowns''),
     (lit ''dallas cowboys'', lit ''dallascowboys''),
     (lit ''denver broncos'', lit ''denverbroncos''),
     (lit ''detroit lions'', lit ''detroitlions''),
     (lit ''green bay packers'', lit ''greenbaypackers''),
     (lit ''houston texans'', lit ''houstontexans''),
     (lit ''indianapolis colts'', lit ''indianapoliscolts''),
     (lit ''jacksonville jaguars'', lit ''jacksonvillejaguars''),
     (lit ''kansas city chiefs'', lit ''kansascitychiefs''),
     (lit ''las vegas raiders'', lit ''lasvegasraiders''),
     (lit ''los angeles chargers'', lit ''losangeleschargers''),
     (lit ''los angeles rams'', lit ''losangelesrams''),
     (lit ''miami dolphins'', lit ''miamidolphins''),
     (lit ''minnesota vikings'', lit ''minnesotavikings''),
     (lit ''new england patriots'', lit ''newenglandpatriots''),
     (lit ''new orleans saints'', lit ''neworleanssaints''),
     (lit ''new york giants'', lit ''newyorkgiants''),
     (lit ''new york jets'', lit ''newyorkjets''),
     (lit ''philadelphia eagles'', lit ''philadelphiaeagles''),
     (lit ''pittsburgh steelers'', lit ''pittsburghsteelers''),
     (lit ''san francisco 49ers'', lit ''sanfrancisco49ers''),
     (lit ''seattle seahawks'', lit ''seattleseahawks''),
     (lit ''tampa bay buccaneers'', lit ''tampabaybuccaneers''),
     (lit ''tennessee titans'', lit ''tennesseetitans''),
     (lit ''washington commanders'', lit ''washingtoncommanders'')]"

definition NFL_NICK_SLUGS :: "(ustr \<times> ustr) list" where
  "NFL_NICK_SLUGS =
    [(lit ''cardinals'', lit ''arizonacardinals''),
     (lit ''falcons'', lit ''atlantafalcons''),
     (lit ''ravens'', lit ''baltimoreravens''),
     (lit ''bills'', lit ''buffalobills''),
     (lit ''panthers'', lit ''carolinapanthers''),
     (lit ''bears'', lit ''chicagobears''),
     (lit ''bengals'', lit ''cincinnatibengals''),
     (lit ''browns'', lit ''clevelandbrowns''),
     (lit ''cowboys'', lit ''dallascowboys''),
     (lit ''broncos'', lit ''denverbroncos''),
     (lit ''lions'', lit ''detroitlions''),
     (lit ''packers'', lit ''greenbaypackers''),
     (lit ''texans'', lit ''houstontexans''),
     (lit ''colts'', lit ''indianapoliscolts''),
     (lit ''jaguars'', lit ''jacksonvillejaguars''),
     (lit ''chiefs'', lit ''kansascitychiefs''),
     (lit ''raiders'', lit ''lasvegasraiders''),
     (lit ''chargers'', lit ''losangeleschargers''),
     (lit ''rams'', lit ''losangelesrams''),
     (lit ''dolphins'', lit ''miamidolphins''),
     (lit ''vikings'', lit ''minnesotavikings''),
     (lit ''patriots'', lit ''newenglandpatriots''),
     (lit ''saints'', lit ''neworleanssaints''),
     (lit ''giants'', lit ''newyorkgiants''),
     (lit ''jets'', lit ''newyorkjets''),
     (lit ''eagles'', lit ''philadelphiaeagles''),
     (lit ''steelers'', lit ''pittsburghsteelers''),
     (lit ''49ers'', lit ''sanfrancisco49ers''),
     (lit ''niners'', lit ''sanfrancisco49ers''),
     (lit ''seahawks'', lit ''seattleseahawks''),
     (lit ''buccaneers'', lit ''tampabaybuccaneers''),
     (lit ''bucs'', lit ''tampabaybuccaneers''),
     (lit ''titans'', lit ''tennesseetitans''),
     (lit ''commanders'', lit ''washingtoncommanders'')]"

definition NHL_TEAM_SLUGS :: "(ustr \<times> ustr) list" where
  "NHL_TEAM_SLUGS =
    [(lit ''anaheim ducks'', lit ''anaheimducks''),
     (lit ''arizona coyotes'', lit ''arizonacoyotes''),
     (lit ''boston bruins'', lit ''bostonbruins''),
     (lit ''buffalo sabres'', lit ''buffalosabres''),
     (lit ''calgary flames'', lit ''calgaryflames''),
     (lit ''carolina hurricanes'', lit ''carolinahurricanes''),
     (lit ''chicago blackhawks'', lit ''chicagoblackhawks''),
     (lit ''colorado avalanche'', lit ''coloradoavalanche''),
     (lit ''columbus blue jackets'', lit ''columbusbluejackets''),
     (lit ''dallas stars'', lit ''dallasstars''),
     (lit ''detroit red wings'', lit ''detroitredwings''),
     (lit ''edmonton oilers'', lit ''edmontonoilers''),
     (lit ''florida panthers'', lit ''floridapanthers''),
     (lit ''los angeles kings'', lit ''losangeleskings''),
     (lit ''minnesota wild'', lit ''minnesotawild''),
     (lit ''montreal canadiens'', lit ''montrealcanadiens''),
     (lit ''nashville predators'', lit ''nashvillepredators''),
     (lit ''new jersey devils'', lit ''newjerseydevils''),
     (lit ''new york islanders'', lit ''newyorkislanders''),
     (lit ''new york rangers'', lit ''newyorkrangers''),
     (lit ''ottawa senators'', lit ''ottawasenators''),
     (lit ''philadelphia flyers'', lit ''philadelphiaflyers''),
     (lit ''pittsburgh penguins'', lit ''pittsburghpenguins''),
     (lit ''san jose sharks'', lit ''sanjosesharks''),
     (lit ''seattle kraken'', lit ''seattlekraken''),
     (lit ''st. louis blues'', lit ''stlouisblues''),
     (lit ''tampa bay lightning'', lit ''tampabaylightning''),
     (lit ''toronto maple leafs'', lit ''torontomapleleafs''),
     (lit ''vancouver canucks'', lit ''vancouvercanucks''),
     (lit ''vegas golden knights'', lit ''vegasgoldenknights''),
     (lit ''washington capitals'', lit ''washingtoncapitals''),
     (lit ''winnipeg jets'', lit ''winnipegjets'')]"

definition NHL_NICK_SLUGS :: "(ustr \<times> ustr) list" where
  "NHL_NICK_SLUGS =
    [(lit ''ducks'', lit ''anaheimducks''),
     (lit ''coyotes'', lit ''arizonacoyotes''),
     (lit ''bruins'', lit ''bostonbruins''),
     (lit ''sabres'', lit ''buffalosabres''),
     (lit ''flames'', lit ''calgaryflames''),
     (lit ''hurricanes'', lit ''carolinahurricanes''),
     (lit ''blackhawks'', lit ''chicagoblackhawks''),
     (lit ''avalanche'', lit ''coloradoavalanche''),
     (lit ''bluejackets'', lit ''columbusbluejackets''),
     (lit ''jackets'', lit ''columbusbluejackets''),
     (lit ''stars'', lit ''dallasstars''),
     (lit ''redwings'', lit ''detroitredwings''),
     (lit ''wings'', lit ''detroitredwings''),
     (lit ''oilers'', lit ''edmontonoilers''),
     (lit ''panthers'', lit ''floridapanthers''),
     (lit ''kings'', lit ''losangeleskings''),
     (lit ''wild'', lit ''minnesotawild''),
     (lit ''canadiens'', lit ''montrealcanadiens''),
     (lit ''predators'', lit ''nashvillepredators''),
     (lit ''devils'', lit ''newjerseydevils''),
     (lit ''islanders'', lit ''newyorkislanders''),
     (lit ''rangers'', lit ''newyorkrangers''),
     (lit ''senators'', lit ''ottawasenators''),
     (lit ''flyers'', lit ''philadelphiaflyers''),
     (lit ''penguins'', lit ''pittsburghpenguins''),
     (lit ''sharks'', lit ''sanjosesharks''),
     (lit ''kraken'', lit ''seattlekraken''),
     (lit ''blues'', lit ''stlouisblues''),
     (lit ''lightning'', lit ''tampabaylightning''),
     (lit ''mapleleafs'', lit ''torontomapleleafs''),
     (lit ''leafs'', lit ''torontomapleleafs''),
     (lit ''canucks'', lit ''vancouvercanucks''),
     (lit ''goldenknights'', lit ''vegasgoldenknights''),
     (lit ''knights'', lit ''vegasgoldenknights''),
     (lit ''capitals'', lit ''washingtoncapitals''),
     (lit ''caps'', lit ''washingtoncapitals''),
     (lit ''jets'', lit ''winnipegjets'')]"

definition NBA_NICK_TO_CODE :: "(ustr \<times> ustr) list" where
  "NBA_NICK_TO_CODE =
    [(lit ''hawks'', lit ''atlantahawks''),
     (lit ''celtics'', lit ''bostonceltics''),
     (lit ''nets'', lit ''brooklynnets''),
     (lit ''hornets'', lit ''charlottehornets''),
     (lit ''bulls'', lit ''chicagobulls''),
     (lit ''cavaliers'', lit ''clevelandcavaliers''),
     (lit ''mavericks'', lit ''dallasmavericks''),
     (lit ''nuggets'', lit ''denvernuggets''),
     (lit ''pistons'', lit ''detroitpistons''),
     (lit ''warriors'', lit ''goldenstatewarriors''),
     (lit ''rockets'', lit ''houstonrockets''),
     (lit ''pacers'', lit ''indianapacers''),
     (lit ''clippers'', lit ''losangelesclippers''),
     (lit ''lakers'', lit ''losangeleslakers''),
     (lit ''grizzlies'', lit ''memphisgrizzlies''),
     (lit ''heat'', lit ''miamiheat''),
     (lit ''bucks'', lit ''milwaukeebucks''),
     (lit ''timberwolves'', lit ''minnesotatimberwolves''),
     (lit ''pelicans'', lit ''neworleanspelicans''),
     (lit ''knicks'', lit ''newyorkknicks''),
     (lit ''thunder'', lit ''oklahomacitythunder''),
     (lit ''magic'', lit ''orlandomagic''),
     (lit ''sixers'', lit ''philadelphiasixers''),
     (lit ''suns'', lit ''phoenixsuns''),
     (lit ''trailblazers'', lit ''portlandtrailblazers''),
     (lit ''kings'', lit ''sacramentokings''),
     (lit ''spurs'', lit ''sanantoniospurs''),
     (lit ''raptors'', lit ''torontoraptors''),
     (lit ''jazz'', lit ''utahjazz''),
     (lit ''wizards'', lit ''washingtonwizards'')]"

definition TWO_WORD_NICKNAMES :: "(ustr \<times> ustr) list" where
  "TWO_WORD_NICKNAMES =
    [(lit ''red sox'', lit ''redsox''),
     (lit ''white sox'', lit ''whitesox''),
     (lit ''blue jays'', lit ''bluejays''),
     (lit ''trail blazers'', lit ''trailblazers'')]"

definition ALT_NICK_MAP :: "(ustr \<times> ustr) list" where
  "ALT_NICK_MAP =
    [(lit ''76ers'', lit ''sixers''),
     (lit ''seventy sixers'', lit ''sixers'')]"

text \<open>The code points \<^verbatim>\<open>_slug\<close> keeps, stated on the input: those whose lower-case form
  is in \<^verbatim>\<open>[a-z0-9]\<close>.\<close>

definition keep :: "nat \<Rightarrow> bool" where
  "keep c = (is_lower_ascii (lower_cp c) \<or> is_digit_ascii (lower_cp c))"

text \<open>The canonical slugs: the values of the four team tables.\<close>

definition table_slugs :: "ustr set" where
  "table_slugs = snd ` set (NFL_TEAM_SLUGS @ NHL_TEAM_SLUGS @ NFL_NICK_SLUGS @ NHL_NICK_SLUGS)"

section \<open>Slug candidate generation\<close>

text \<open>One step of \<^verbatim>\<open>if m: out.append(m)\<close> and of
  \<^verbatim>\<open>if m and m not in out: out.append(m)\<close>, for the result \<open>m\<close> of a \<^verbatim>\<open>dict.get\<close>.\<close>

definition add_hit :: "ustr list \<Rightarrow> ustr option \<Rightarrow> ustr list" where
  "add_hit out m = (if truthy m then out @ [the m] else out)"

definition add_new_hit :: "ustr list \<Rightarrow> ustr option \<Rightarrow> ustr list" where
  "add_new_hit out m = (if truthy m \<and> the m \<notin> set out then out @ [the m] else out)"

text \<open>\<^verbatim>\<open>general_candidates\<close> as nested in \<^verbatim>\<open>resolve_team_slug\<close> (full-name mode).\<close>

definition general_candidates :: "ustr \<Rightarrow> ustr list" where
  "general_candidates txt0 =
     (let txt = py_lower (py_strip txt0);
          base_norm = collapse_ws txt;
          out1 = foldl add_hit [] [map_of NFL_TEAM_SLUGS base_norm, map_of NHL_TEAM_SLUGS base_norm];
          parts = py_split base_norm;
          lastw = (if parts \<noteq> [] then slug (last parts) else []);
          two_last = (if length parts \<ge> 2 then slug (py_join (lit '' '') (last_two parts)) else []);
          out2 = foldl add_new_hit out1
                   [map_of NFL_NICK_SLUGS two_last, map_of NFL_NICK_SLUGS lastw,
                    map_of NHL_NICK_SLUGS two_last, map_of NHL_NICK_SLUGS lastw];
          joined = slug base_norm
      in if joined \<noteq> [] \<and> joined \<notin> set out2 then out2 @ [joined] else out2)"

text \<open>The copy of \<^verbatim>\<open>general_candidates\<close> nested in \<^verbatim>\<open>_home_match_candidates\<close>.\<close>

definition home_general_candidates :: "ustr \<Rightarrow> ustr list" where
  "home_general_candidates txt0 =
     (let txt = py_lower (py_strip txt0);
          base_norm = collapse_ws txt;
          out1 = foldl add_hit [] [map_of NFL_TEAM_SLUGS base_norm, map_of NHL_TEAM_SLUGS base_norm];
          parts = py_split base_norm;
          lastw = (if parts \<noteq> [] then slug (last parts) else []);
          two_last = (if length parts \<ge> 2 then slug (py_join (lit '' '') (last_two parts)) else []);
          out2 = foldl add_new_hit out1
                   [map_of NFL_NICK_SLUGS two_last, map_of NFL_NICK_SLUGS lastw,
                    map_of NHL_NICK_SLUGS two_last, map_of NHL_NICK_SLUGS lastw];
          joined = slug base_norm
      in if joined \<noteq> [] \<and> joined \<notin> set out2 then out2 @ [joined] else out2)"

text \<open>The closing loop of \<^verbatim>\<open>_nickname_only_candidates\<close>: keep the first occurrence of every
  non-empty candidate.\<close>

fun dedup_nonempty :: "ustr list \<Rightarrow> ustr list \<Rightarrow> ustr list" where
  "dedup_nonempty out [] = out"
| "dedup_nonempty out (c # cs) =
     (if c \<noteq> [] \<and> c \<notin> set out then dedup_nonempty (out @ [c]) cs else dedup_nonempty out cs)"

definition nickname_only_candidates :: "ustr \<Rightarrow> ustr list" where
  "nickname_only_candidates team_text =
     (let txt = py_lower (py_strip team_text)
      in if txt = [] then []
         else
          (let parts = py_split (collapse_ws txt);
               last_two_phrase = (if length parts \<ge> 2 then py_join (lit '' '') (last_two parts) else []);
               last_two_nick = (case map_of TWO_WORD_NICKNAMES last_two_phrase of Some v \<Rightarrow> v | None \<Rightarrow> []);
               lastw = (if parts \<noteq> [] then last parts else []);
               cands1 = (if last_two_nick \<noteq> [] then [slug last_two_nick] else []);
               cands2 = (if lastw \<noteq> [] then cands1 @ [slug lastw] else cands1);
               cands3 = (if list_ex (\<lambda>(k, v). py_in k txt) ALT_NICK_MAP
                         then cands2 @ map (\<lambda>(k, v). slug v) (filter (\<lambda>(k, v). py_in k txt) ALT_NICK_MAP)
                         else cands2)
           in dedup_nonempty [] cands3))"

text \<open>\<^verbatim>\<open>_expand_nba_candidates\<close>; \<open>seen\<close> always holds the elements of \<open>out\<close>, so one list
  stands for both.\<close>

fun expand_nba_loop :: "ustr list \<Rightarrow> ustr list \<Rightarrow> ustr list" where
  "expand_nba_loop out [] = out"
| "expand_nba_loop out (n # ns) =
     (let out1 = (case map_of NBA_NICK_TO_CODE n of
                    Some code \<Rightarrow>
                      (if code \<noteq> [] \<and> lit ''nba_'' @ code \<notin> set out then out @ [lit ''nba_'' @ code] else out)
                  | None \<Rightarrow> out);
          out2 = (if n \<notin> set out1 then out1 @ [n] else out1)
      in expand_nba_loop out2 ns)"

definition expand_nba_candidates :: "ustr list \<Rightarrow> ustr list" where
  "expand_nba_candidates nick_cands = expand_nba_loop [] nick_cands"

definition home_match_candidates :: "ustr \<Rightarrow> bool \<Rightarrow> ustr set" where
  "home_match_candidates home_text nickname_only =
     (if nickname_only then set (expand_nba_candidates (nickname_only_candidates home_text))
      else set (home_general_candidates home_text))"

definition build_candidates :: "bool \<Rightarrow> ustr \<Rightarrow> ustr list" where
  "build_candidates nickname_only txt =
     (if nickname_only then expand_nba_candidates (nickname_only_candidates txt)
      else general_candidates txt)"

section \<open>The endpoint verifier\<close>

text \<open>
  A HEAD request either returns a response with a status or raises (connection failure,
  timeout, cancellation). The network is a function from the probes made so far and the
  address probed now to that outcome, so that the same address may answer differently at
  different times; every probe is appended to the log.
\<close>

datatype exn = ClientError | TimeoutError | CancelledError

type_synonym net = "ustr list \<Rightarrow> ustr \<Rightarrow> exn + nat"

text \<open>\<^verbatim>\<open>verify_stream_url\<close>: the \<^verbatim>\<open>try\<close> returns \<^verbatim>\<open>r.status == 200\<close>, the bare
  \<^verbatim>\<open>except\<close> returns \<^verbatim>\<open>False\<close>. The result type keeps the channel on which an
  exception would leave the function.\<close>

definition verify_stream_url :: "exn + nat \<Rightarrow> exn + bool" where
  "verify_stream_url r = (case r of Inr status \<Rightarrow> Inr (status = 200) | Inl e \<Rightarrow> Inr False)"

definition probe :: "net \<Rightarrow> ustr \<Rightarrow> ustr list \<Rightarrow> (exn + bool) \<times> ustr list" where
  "probe nw url log = (verify_stream_url (nw log url), log @ [url])"

definition PPV_STREAM_URL_PATTERN :: "ustr \<Rightarrow> ustr" where
  "PPV_STREAM_URL_PATTERN team_name =
     lit ''https://gg.poocloud.in/'' @ team_name @ lit ''/tracks-v1a1/mono.ts.m3u8''"

section \<open>The slug resolver\<close>

text \<open>\<^verbatim>\<open>first_verified\<close>: candidates outside a given allow-list are skipped without a probe;
  the first candidate whose probe answers true is returned.\<close>

fun first_verified :: "net \<Rightarrow> ustr set option \<Rightarrow> ustr list \<Rightarrow> ustr list \<Rightarrow> ustr option \<times> ustr list" where
  "first_verified nw allowed_slugs [] log = (None, log)"
| "first_verified nw allowed_slugs (s # cands) log =
     (if (case allowed_slugs of Some A \<Rightarrow> s \<notin> A | None \<Rightarrow> False)
      then first_verified nw allowed_slugs cands log
      else (case probe nw (PPV_STREAM_URL_PATTERN s) log of
              (r, log') \<Rightarrow>
                if r = Inr True then (Some s, log')
                else first_verified nw allowed_slugs cands log'))"

definition starts_with :: "ustr \<Rightarrow> ustr \<Rightarrow> bool" where
  "starts_with s p = prefix p s"

text \<open>The candidates tried for the page-supplied key (\<^verbatim>\<open>dt_cands\<close>).\<close>

definition dt_cands :: "bool \<Rightarrow> ustr \<Rightarrow> ustr list" where
  "dt_cands nickname_only dt_slug =
     (if nickname_only
      then (if \<not> starts_with dt_slug (lit ''nba_'') then expand_nba_candidates [dt_slug]
            else [dt_slug])
      else [dt_slug])"

definition resolve_team_slug ::
  "net \<Rightarrow> ustr option \<Rightarrow> ustr \<Rightarrow> ustr \<Rightarrow> ustr set option \<Rightarrow> bool \<Rightarrow> ustr list \<Rightarrow> ustr option \<times> ustr list" where
  "resolve_team_slug nw data_team away_team_text home_team_text allowed_slugs nickname_only log =
     (case first_verified nw allowed_slugs (build_candidates nickname_only home_team_text) log of
        (home_first, log1) \<Rightarrow>
          if truthy home_first then (home_first, log1)
          else (case first_verified nw allowed_slugs (build_candidates nickname_only away_team_text) log1 of
                  (away_ok, log2) \<Rightarrow>
                    if truthy away_ok then (away_ok, log2)
                    else if truthy data_team
                    then (case first_verified nw allowed_slugs
                                 (dt_cands nickname_only (slug (the data_team))) log2 of
                            (dt_ok, log3) \<Rightarrow>
                              if truthy dt_ok then (dt_ok, log3) else (None, log3))
                    else (None, log2)))"

text \<open>The slug of one schedule row in \<^verbatim>\<open>scrape_ppv_league\<close>: a backup slug declared by the
  page is probed first and kept when it is one of the home team's candidates; otherwise
  the resolver runs.\<close>

definition resolve_row_slug ::
  "net \<Rightarrow> ustr option \<Rightarrow> ustr option \<Rightarrow> ustr \<Rightarrow> ustr \<Rightarrow> ustr set option \<Rightarrow> bool \<Rightarrow> ustr list
     \<Rightarrow> ustr option \<times> ustr list" where
  "resolve_row_slug nw backup_slug team_key away_team home_team allowed_slugs nickname_only log =
     (case (if truthy backup_slug
            then (case probe nw (PPV_STREAM_URL_PATTERN (the backup_slug)) log of
                    (r, log') \<Rightarrow>
                      if r = Inr True
                      then (if the backup_slug \<in> home_match_candidates home_team nickname_only
                            then (backup_slug, log') else (None, log'))
                      else (None, log'))
            else (None, log)) of
        (resolved_slug, log0) \<Rightarrow>
          if \<not> truthy resolved_slug
          then resolve_team_slug nw team_key away_team home_team allowed_slugs nickname_only log0
          else (resolved_slug, log0))"

section \<open>Regular expressions of the temporal resolver\<close>

text \<open>
  The patterns are matched with \<^verbatim>\<open>re.IGNORECASE\<close>. On the modelled code points a letter of
  a pattern matches the characters whose lower-case form it is, \<^verbatim>\<open>[a-z]\<close> matches the
  ASCII letters, \<^verbatim>\<open>\d\<close> the ASCII digits, \<^verbatim>\<open>\s\<close> the white space of \<^verbatim>\<open>str.isspace\<close>
  and \<^verbatim>\<open>\w\<close> the ASCII letters, digits, the underscore and the letter U+01F0.
\<close>

definition is_alpha_ascii :: "nat \<Rightarrow> bool" where
  "is_alpha_ascii c = (is_lower_ascii c \<or> is_upper_ascii c)"

definition is_word :: "nat \<Rightarrow> bool" where
  "is_word c = (is_alpha_ascii c \<or> is_digit_ascii c \<or> c = 95 \<or> c = 496)"

definition hd_opt :: "'a list \<Rightarrow> 'a option" where
  "hd_opt s = (case s of [] \<Rightarrow> None | c # cs \<Rightarrow> Some c)"

definition word_opt :: "nat option \<Rightarrow> bool" where
  "word_opt p = (case p of None \<Rightarrow> False | Some c \<Rightarrow> is_word c)"

text \<open>\<^verbatim>\<open>\b\<close> between the previous character (if any) and the rest of the text.\<close>

definition boundary :: "nat option \<Rightarrow> ustr \<Rightarrow> bool" where
  "boundary prev s = (word_opt prev \<noteq> word_opt (hd_opt s))"

text \<open>\<^verbatim>\<open>re.search\<close>: the leftmost position at which the match function succeeds, with what
  it returns there. The match function sees the character before the position and the
  text from the position on.\<close>

fun re_search :: "(nat option \<Rightarrow> ustr \<Rightarrow> 'a option) \<Rightarrow> nat option \<Rightarrow> nat \<Rightarrow> ustr \<Rightarrow> (nat \<times> 'a) option" where
  "re_search m prev i [] = (case m prev [] of Some r \<Rightarrow> Some (i, r) | None \<Rightarrow> None)"
| "re_search m prev i (c # cs) =
     (case m prev (c # cs) of Some r \<Rightarrow> Some (i, r) | None \<Rightarrow> re_search m (Some c) (Suc i) cs)"

text \<open>The alternatives of \<^verbatim>\<open>MONTH_RE\<close>, in the order of the pattern.\<close>

definition month_names :: "ustr list" where
  "month_names = map lit [''jan'', ''feb'', ''mar'', ''apr'', ''may'', ''jun'', ''jul'', ''aug'',
     ''sep'', ''sept'', ''oct'', ''nov'', ''dec'']"

definition ci_prefix :: "ustr \<Rightarrow> ustr \<Rightarrow> bool" where
  "ci_prefix name s = (length name \<le> length s \<and> map lower_cp (take (length name) s) = name)"

text \<open>The text after the first alternative that matches at the start of \<open>s\<close>. A later
  alternative matches only where \<^verbatim>\<open>Sep\<close> does and ends inside the letters that
  \<^verbatim>\<open>[a-z]*\<close> takes, so trying it changes no outcome.\<close>

definition month_name_rest :: "ustr \<Rightarrow> ustr option" where
  "month_name_rest s =
     (case find (\<lambda>n. ci_prefix n s) month_names of
        None \<Rightarrow> None
      | Some n \<Rightarrow> Some (drop (length n) s))"

text \<open>
  \<^verbatim>\<open>\bMONTH_RE\b\<close> at the start of \<open>s\<close>, the leading \<^verbatim>\<open>\b\<close> apart. After the name,
  \<^verbatim>\<open>[a-z]*\<close> takes letters; if it stops before the end of the run of letters, the next
  character is a letter and neither \<^verbatim>\<open>\.\<close> nor \<^verbatim>\<open>\b\<close> matches there. After the whole
  run \<open>r1\<close> remains, and the pattern ends either behind a dot that a word character
  follows, or directly, where no word character follows.
\<close>

definition month_token :: "ustr \<Rightarrow> bool" where
  "month_token s =
     (case month_name_rest s of
        None \<Rightarrow> False
      | Some r \<Rightarrow>
          (let r1 = dropWhile is_alpha_ascii r
           in (r1 \<noteq> [] \<and> hd r1 = 46 \<and> word_opt (hd_opt (tl r1))) \<or> \<not> word_opt (hd_opt r1)))"

text \<open>
  The date pattern \<^verbatim>\<open>\b(MONTH_RE)\s+(\d{1,2})(?:,\s*(\d{4}))?\<close> at one position; the result
  is the three groups. After the month's letters an optional dot is taken, then white
  space must follow (so \<^verbatim>\<open>[a-z]*\<close> and \<^verbatim>\<open>\.?\<close> cannot stop earlier), then one or two
  digits, then optionally a comma, white space and four digits.
\<close>

definition date_match :: "nat option \<Rightarrow> ustr \<Rightarrow> (ustr \<times> ustr \<times> ustr option) option" where
  "date_match prev s =
     (if \<not> boundary prev s then None
      else case month_name_rest s of
        None \<Rightarrow> None
      | Some r \<Rightarrow>
          (let r1 = dropWhile is_alpha_ascii r;
               r2 = (if r1 \<noteq> [] \<and> hd r1 = 46 then tl r1 else r1);
               mon_str = take (length s - length r2) s;
               r3 = dropWhile py_isspace r2;
               day_str = take 2 (takeWhile is_digit_ascii r3);
               r4 = drop (length day_str) r3
           in if length r3 = length r2 \<or> day_str = [] then None
              else Some (mon_str, day_str,
                     (case r4 of
                        [] \<Rightarrow> None
                      | c # r5 \<Rightarrow>
                          (let r6 = dropWhile py_isspace r5
                           in if c = 44 \<and> length (takeWhile is_digit_ascii (take 4 r6)) = 4
                              then Some (take 4 r6) else None)))))"

text \<open>\<^verbatim>\<open>TIME_RE\<close>, \<^verbatim>\<open>(\d{1,2}):(\d{2})\s*(AM|PM)\<close>, at one position: one or two digits
  directly before a colon, two digits, white space, then \<^verbatim>\<open>AM\<close> or \<^verbatim>\<open>PM\<close> in any
  case.\<close>

definition time_match :: "nat option \<Rightarrow> ustr \<Rightarrow> (ustr \<times> ustr \<times> ustr) option" where
  "time_match prev s =
     (let g1 = takeWhile is_digit_ascii s; r1 = drop (length g1) s
      in if g1 = [] \<or> length g1 > 2 then None
         else case r1 of
           [] \<Rightarrow> None
         | c # r2 \<Rightarrow>
             (let g2 = take 2 r2; r3 = dropWhile py_isspace (drop 2 r2); g3 = take 2 r3
              in if c = 58 \<and> length g2 = 2 \<and> list_all is_digit_ascii g2
                    \<and> (map lower_cp g3 = lit ''am'' \<or> map lower_cp g3 = lit ''pm'')
                 then Some (g1, g2, g3) else None))"

text \<open>\<^verbatim>\<open>TZ_ABBR_NEAR\<close>, \<^verbatim>\<open>\b([ECMP][SD]?T|ET|CT|MT|PT)\b\<close>, at one position: after a
  boundary, one of E, C, M, P, then T or one of S, D and T, and no word character
  behind.\<close>

definition tz_match :: "nat option \<Rightarrow> ustr \<Rightarrow> ustr option" where
  "tz_match prev s =
     (if \<not> boundary prev s then None
      else case s of
        c1 # c2 # r2 \<Rightarrow>
          if lower_cp c1 \<in> set (lit ''ecmp'')
          then (if lower_cp c2 \<in> set (lit ''sd'')
                then (case r2 of
                        c3 # r3 \<Rightarrow>
                          if lower_cp c3 = 116 \<and> \<not> word_opt (hd_opt r3) then Some [c1, c2, c3] else None
                      | [] \<Rightarrow> None)
                else if lower_cp c2 = 116 \<and> \<not> word_opt (hd_opt r2) then Some [c1, c2] else None)
          else None
      | _ \<Rightarrow> None)"

section \<open>Dates\<close>

text \<open>A \<^verbatim>\<open>datetime.date\<close>; the constructor raises \<^verbatim>\<open>ValueError\<close> outside the proleptic
  Gregorian calendar of the years 1 to 9999. The other exception that can leave a scraper
  is the browser's, when a navigation fails.\<close>

datatype py_error = ValueError | PlaywrightError

record pydate =
  d_year :: int
  d_month :: int
  d_day :: int

definition is_leap :: "int \<Rightarrow> bool" where
  "is_leap y = (y mod 4 = 0 \<and> (y mod 100 \<noteq> 0 \<or> y mod 400 = 0))"

definition days_in_month :: "int \<Rightarrow> int \<Rightarrow> int" where
  "days_in_month y m =
     (if m = 2 then (if is_leap y then 29 else 28)
      else if m = 4 \<or> m = 6 \<or> m = 9 \<or> m = 11 then 30 else 31)"

definition mk_date :: "int \<Rightarrow> int \<Rightarrow> int \<Rightarrow> pydate option" where
  "mk_date y m d =
     (if 1 \<le> y \<and> y \<le> 9999 \<and> 1 \<le> m \<and> m \<le> 12 \<and> 1 \<le> d \<and> d \<le> days_in_month y m
      then Some \<lparr>d_year = y, d_month = m, d_day = d\<rparr> else None)"

definition valid_date :: "pydate \<Rightarrow> bool" where
  "valid_date x = (mk_date (d_year x) (d_month x) (d_day x) = Some x)"

text \<open>\<^verbatim>\<open>date.toordinal\<close>, as CPython computes it.\<close>

definition days_before_year :: "int \<Rightarrow> int" where
  "days_before_year y = (y - 1) * 365 + (y - 1) div 4 - (y - 1) div 100 + (y - 1) div 400"

definition days_before_month :: "int \<Rightarrow> int \<Rightarrow> int" where
  "days_before_month y m =
     [0, 31, 59, 90, 120, 151, 181, 212, 243, 273, 304, 334] ! nat (m - 1)
       + (if m > 2 \<and> is_leap y then 1 else 0)"

definition toordinal :: "pydate \<Rightarrow> int" where
  "toordinal x = days_before_year (d_year x) + days_before_month (d_year x) (d_month x) + d_day x"

text \<open>\<^verbatim>\<open>_guess_year\<close>; the date of the reference year is built first and may raise.\<close>

definition guess_year :: "int \<Rightarrow> int \<Rightarrow> pydate \<Rightarrow> py_error + int" where
  "guess_year mon dd today =
     (case mk_date (d_year today) mon dd of
        None \<Rightarrow> Inl ValueError
      | Some cand \<Rightarrow>
          (let delta = toordinal cand - toordinal today
           in if delta < - 180 then Inr (d_year today + 1)
              else if delta > 180 then Inr (d_year today - 1)
              else Inr (d_year today)))"

text \<open>\<^verbatim>\<open>int\<close> of a string of ASCII digits.\<close>

definition int_of_digits :: "ustr \<Rightarrow> int" where
  "int_of_digits s = foldl (\<lambda>a c. 10 * a + (int c - 48)) 0 s"

definition strip_dots :: "ustr \<Rightarrow> ustr" where
  "strip_dots s = rev (dropWhile (\<lambda>c. c = 46) (rev (dropWhile (\<lambda>c. c = 46) s)))"

definition month_numbers :: "(ustr \<times> int) list" where
  "month_numbers =
     [(lit ''jan'', 1), (lit ''feb'', 2), (lit ''mar'', 3), (lit ''apr'', 4), (lit ''may'', 5),
      (lit ''jun'', 6), (lit ''jul'', 7), (lit ''aug'', 8), (lit ''sep'', 9), (lit ''sept'', 9),
      (lit ''oct'', 10), (lit ''nov'', 11), (lit ''dec'', 12)]"

definition month_str_to_num :: "ustr \<Rightarrow> int" where
  "month_str_to_num mon =
     (case map_of month_numbers (strip_dots (py_lower mon)) of Some n \<Rightarrow> n | None \<Rightarrow> 1)"

text \<open>\<^verbatim>\<open>parse_date_title\<close>. \<^verbatim>\<open>int(day_str)\<close> cannot fail on the digits the pattern took;
  \<^verbatim>\<open>_guess_year\<close> is called outside the \<^verbatim>\<open>try\<close>, so what it raises leaves the function;
  the final \<^verbatim>\<open>date(year, mon, day)\<close> is inside a \<^verbatim>\<open>try\<close> that returns \<^verbatim>\<open>None\<close>.\<close>

definition parse_date_title :: "ustr \<Rightarrow> pydate \<Rightarrow> py_error + pydate option" where
  "parse_date_title text0 today =
     (let text = py_join (lit '' '') (py_split text0)
      in case re_search date_match None 0 text of
           None \<Rightarrow> Inr None
         | Some (i, mon_str, day_str, year_str) \<Rightarrow>
             (let mon = month_str_to_num mon_str;
                  dd = int_of_digits day_str
              in case (case year_str of
                         Some ys \<Rightarrow> Inr (int_of_digits ys)
                       | None \<Rightarrow> guess_year mon dd today) of
                   Inl e \<Rightarrow> Inl e
                 | Inr yy \<Rightarrow> Inr (mk_date yy mon dd)))"

section \<open>Time of day and time zone\<close>

definition upper_cp :: "nat \<Rightarrow> nat" where
  "upper_cp c = (if is_lower_ascii c then c - 32 else c)"

text \<open>\<^verbatim>\<open>str.upper\<close> on ASCII text (the text of a matched group).\<close>

definition py_upper :: "ustr \<Rightarrow> ustr" where
  "py_upper s = map upper_cp s"

text \<open>A \<^verbatim>\<open>ZoneInfo\<close> is identified by its key.\<close>

definition TZ_ABBR_MAP :: "(ustr \<times> ustr) list" where
  "TZ_ABBR_MAP =
    [(lit ''ET'', lit ''America/New_York''),
     (lit ''EST'', lit ''America/New_York''),
     (lit ''EDT'', lit ''America/New_York''),
     (lit ''CT'', lit ''America/Chicago''),
     (lit ''CST'', lit ''America/Chicago''),
     (lit ''CDT'', lit ''America/Chicago''),
     (lit ''MT'', lit ''America/Denver''),
     (lit ''MST'', lit ''America/Denver''),
     (lit ''MDT'', lit ''America/Denver''),
     (lit ''PT'', lit ''America/Los_Angeles''),
     (lit ''PST'', lit ''America/Los_Angeles''),
     (lit ''PDT'', lit ''America/Los_Angeles'')]"

text \<open>\<^verbatim>\<open>text[max(0, start-16): start+32]\<close>.\<close>

definition tz_window :: "ustr \<Rightarrow> nat \<Rightarrow> ustr" where
  "tz_window text start = drop (start - 16) (take (start + 32) text)"

text \<open>\<^verbatim>\<open>parse_time_and_tz\<close>; a key missing from \<^verbatim>\<open>TZ_ABBR_MAP\<close> would raise inside the
  \<^verbatim>\<open>try\<close> and leave the default zone.\<close>

definition parse_time_and_tz :: "ustr \<Rightarrow> ustr \<Rightarrow> int option \<times> int option \<times> ustr" where
  "parse_time_and_tz text default_tz =
     (case re_search time_match None 0 text of
        None \<Rightarrow> (None, None, default_tz)
      | Some (start, g1, g2, g3) \<Rightarrow>
          (let hh0 = int_of_digits g1;
               mm = int_of_digits g2;
               ap = py_upper g3;
               hh1 = (if ap = lit ''PM'' \<and> hh0 \<noteq> 12 then hh0 + 12 else hh0);
               hh = (if ap = lit ''AM'' \<and> hh1 = 12 then 0 else hh1);
               tzinfo = (case re_search tz_match None 0 (tz_window text start) of
                           None \<Rightarrow> default_tz
                         | Some (j, abbr) \<Rightarrow>
                             (case map_of TZ_ABBR_MAP (py_upper abbr) of
                                Some z \<Rightarrow> z
                              | None \<Rightarrow> default_tz))
           in (Some hh, Some mm, tzinfo)))"

text \<open>
  What it means for the text \<open>w\<close> to hold a time zone abbreviation at index \<open>i\<close>: the
  characters from \<open>i\<close> on spell, in any case, a key of \<^verbatim>\<open>TZ_ABBR_MAP\<close>, and neither the
  character before nor the character behind (if there is one) is a word character.
\<close>

definition char_before :: "ustr \<Rightarrow> nat \<Rightarrow> nat option" where
  "char_before w i = (if i = 0 then None else Some (w ! (i - 1)))"

definition char_at :: "ustr \<Rightarrow> nat \<Rightarrow> nat option" where
  "char_at w i = (if i < length w then Some (w ! i) else None)"

definition tz_token_at :: "ustr \<Rightarrow> nat \<Rightarrow> ustr \<Rightarrow> bool" where
  "tz_token_at w i abbr =
     (i + length abbr \<le> length w \<and> take (length abbr) (drop i w) = abbr
      \<and> py_upper abbr \<in> fst ` set TZ_ABBR_MAP
      \<and> \<not> word_opt (char_before w i) \<and> \<not> word_opt (char_at w (i + length abbr)))"

section \<open>The name normalizer\<close>

text \<open>\<^verbatim>\<open>str.splitlines()\<close>: the text between line boundaries; \<^verbatim>\<open>\r\n\<close> is one boundary,
  and a boundary at the very end opens no further line.\<close>

definition is_linebreak :: "nat \<Rightarrow> bool" where
  "is_linebreak c = ((10 \<le> c \<and> c \<le> 13) \<or> (28 \<le> c \<and> c \<le> 30) \<or> c = 133 \<or> c = 8232 \<or> c = 8233)"

fun splitlines_aux :: "ustr \<Rightarrow> ustr \<Rightarrow> ustr list" where
  "splitlines_aux cur [] = (if cur = [] then [] else [cur])"
| "splitlines_aux cur [c] = (if is_linebreak c then [cur] else [cur @ [c]])"
| "splitlines_aux cur (c # d # cs) =
     (if c = 13 \<and> d = 10 then cur # splitlines_aux [] cs
      else if is_linebreak c then cur # splitlines_aux [] (d # cs)
      else splitlines_aux (cur @ [c]) (d # cs))"

definition py_splitlines :: "ustr \<Rightarrow> ustr list" where
  "py_splitlines s = splitlines_aux [] s"

text \<open>
  \<^verbatim>\<open>str.title()\<close>, as CPython's \<^verbatim>\<open>do_title\<close>: a character that follows a cased character
  is lower-cased, any other is title-cased, and the title-case of one character may be
  several. The cased characters of the modelled code points are the ASCII letters and
  U+01F0, whose title-case is \<^verbatim>\<open>J\<close> followed by the combining caron U+030C.
\<close>

definition is_cased :: "nat \<Rightarrow> bool" where
  "is_cased c = (is_alpha_ascii c \<or> c = 496)"

definition title_cp :: "nat \<Rightarrow> ustr" where
  "title_cp c = (if is_lower_ascii c then [c - 32] else if c = 496 then [74, 780] else [c])"

fun title_aux :: "bool \<Rightarrow> ustr \<Rightarrow> ustr" where
  "title_aux previous_is_cased [] = []"
| "title_aux previous_is_cased (c # cs) =
     (if previous_is_cased then [lower_cp c] else title_cp c) @ title_aux (is_cased c) cs"

definition py_title :: "ustr \<Rightarrow> ustr" where
  "py_title s = title_aux False s"

text \<open>
  \<^verbatim>\<open>re.sub(rf"(\b{MONTH_RE}\b.*)$", "", b, flags=re.IGNORECASE)\<close>: the text is cut at the
  leftmost position where a month token starts after a boundary and the rest of the text
  is one line (\<^verbatim>\<open>.\<close> does not match a line feed, and \<^verbatim>\<open>$\<close> matches at the end or
  before a final line feed, which then stays).
\<close>

fun month_cut_aux :: "nat option \<Rightarrow> ustr \<Rightarrow> ustr" where
  "month_cut_aux prev [] = []"
| "month_cut_aux prev (c # cs) =
     (if boundary prev (c # cs) \<and> month_token (c # cs) \<and> 10 \<notin> set (butlast (c # cs))
      then (if last (c # cs) = 10 then [10] else [])
      else c # month_cut_aux (Some c) cs)"

definition month_cut :: "ustr \<Rightarrow> ustr" where
  "month_cut s = month_cut_aux None s"

definition normalize_game_name :: "ustr \<Rightarrow> ustr" where
  "normalize_game_name original_name =
     (let cleaned = py_strip (py_join (lit '' '') (py_splitlines original_name))
      in if 64 \<in> set cleaned
         then (let a = takeWhile (\<lambda>c. c \<noteq> 64) cleaned;
                   b = tl (dropWhile (\<lambda>c. c \<noteq> 64) cleaned);
                   a' = py_title (py_strip a);
                   b' = py_title (py_strip (month_cut (py_strip b)))
               in a' @ lit '' @ '' @ b')
         else py_title (py_join (lit '' '') (py_split cleaned)))"

section \<open>The display name\<close>

text \<open>
  A time in the display zone, as \<^verbatim>\<open>astimezone(LOCAL_TZ)\<close> returns it: the wall-clock
  fields and the abbreviation \<^verbatim>\<open>tzname()\<close> gives for them. The time zone database is not
  part of the program: the conversion from a wall-clock time in a named zone is a
  parameter \<open>tzdb\<close>, which answers \<open>None\<close> where the conversion raises.
\<close>

record local_dt =
  l_year :: int
  l_month :: nat
  l_day :: nat
  l_hour :: nat
  l_minute :: nat
  l_tzname :: "ustr option"

type_synonym tzdb = "ustr \<Rightarrow> pydate \<Rightarrow> int \<Rightarrow> int \<Rightarrow> local_dt option"

text \<open>Decimal digits of a number, and the two-digit form of \<^verbatim>\<open>%M\<close>.\<close>

fun dec :: "nat \<Rightarrow> ustr" where
  "dec n = (if n < 10 then [48 + n] else dec (n div 10) @ [48 + n mod 10])"

declare dec.simps [simp del]

definition two_digits :: "nat \<Rightarrow> ustr" where
  "two_digits n = (if n < 10 then 48 # dec n else dec n)"

definition month_abbr :: "nat \<Rightarrow> ustr" where
  "month_abbr m = map lit [''Jan'', ''Feb'', ''Mar'', ''Apr'', ''May'', ''Jun'', ''Jul'', ''Aug'',
     ''Sep'', ''Oct'', ''Nov'', ''Dec''] ! (m - 1)"

text \<open>\<^verbatim>\<open>%b %-d\<close> and \<^verbatim>\<open>%-I:%M %p\<close> in the C locale.\<close>

definition date_str :: "local_dt \<Rightarrow> ustr" where
  "date_str d = month_abbr (l_month d) @ lit '' '' @ dec (l_day d)"

definition time_str :: "local_dt \<Rightarrow> ustr" where
  "time_str d =
     dec (if l_hour d mod 12 = 0 then 12 else l_hour d mod 12) @ lit '':'' @ two_digits (l_minute d)
       @ lit '' '' @ (if l_hour d < 12 then lit ''AM'' else lit ''PM'')"

text \<open>\<^verbatim>\<open>dt_local.tzname() or LOCAL_TZ.tzname(dt_local)\<close>: both operands are the same call on
  the same zone; an absent name is printed as \<^verbatim>\<open>None\<close> by the format string.\<close>

definition tz_abbr :: "local_dt \<Rightarrow> ustr" where
  "tz_abbr d = (case l_tzname d of Some n \<Rightarrow> n | None \<Rightarrow> lit ''None'')"

definition format_game_datetime :: "ustr \<Rightarrow> local_dt option \<Rightarrow> ustr" where
  "format_game_datetime game_name dt_local =
     (case dt_local of
        None \<Rightarrow> game_name
      | Some d \<Rightarrow>
          game_name @ [32, 8226, 32] @ date_str d @ lit '' at '' @ time_str d @ lit '' '' @ tz_abbr d)"

text \<open>
  The instant of a row, in both scrapers: with a date, an hour and a minute the
  \<^verbatim>\<open>datetime\<close> is built in the inferred zone and converted; the constructor raises on an
  hour above 23 or a minute above 59, and the \<^verbatim>\<open>except\<close> leaves \<^verbatim>\<open>None\<close>.
\<close>

definition row_dt_local :: "tzdb \<Rightarrow> pydate option \<Rightarrow> int option \<Rightarrow> int option \<Rightarrow> ustr \<Rightarrow> local_dt option" where
  "row_dt_local db game_date hh mm tzinfo =
     (case (game_date, hh, mm) of
        (Some gd, Some h, Some m) \<Rightarrow>
          if 0 \<le> h \<and> h \<le> 23 \<and> 0 \<le> m \<and> m \<le> 59 then db tzinfo gd h m else None
      | _ \<Rightarrow> None)"

section \<open>Auxiliary notions for the normalizer\<close>

text \<open>Stripping on one side, texts that hold no month token, and lists of words (non-empty,
  free of white space); they serve to state the lemmas about the normalizer.\<close>

definition lstrip :: "ustr \<Rightarrow> ustr" where "lstrip s = dropWhile py_isspace s"

definition rstrip :: "ustr \<Rightarrow> ustr" where "rstrip s = rev (dropWhile py_isspace (rev s))"

definition starts_month :: "ustr \<Rightarrow> bool" where
  "starts_month s = (\<exists>n\<in>set month_names. ci_prefix n s)"

fun no_month :: "nat option \<Rightarrow> ustr \<Rightarrow> bool" where
  "no_month prev [] = True"
| "no_month prev (c # cs) = (\<not> (boundary prev (c # cs) \<and> month_token (c # cs)) \<and> no_month (Some c) cs)"

definition is_words :: "ustr list \<Rightarrow> bool" where
  "is_words ws = (\<forall>w\<in>set ws. w \<noteq> [] \<and> (\<forall>c\<in>set w. \<not> py_isspace c))"

section \<open>Stream events and the two scrapers\<close>

record stream_event =
  ev_name :: ustr
  ev_url :: ustr
  ev_tvg_id :: ustr
  ev_tvg_logo :: ustr
  ev_group :: ustr
  ev_ref :: ustr
  ev_custom_headers :: "(ustr \<times> ustr \<times> ustr) option"

definition PPV_CUSTOM_HEADERS :: "ustr \<times> ustr \<times> ustr" where
  "PPV_CUSTOM_HEADERS =
     (lit ''https://ppv.to'', lit ''https://ppv.to/'',
      lit ''Mozilla/5.0 (Windows NT 10.0; Win64; x64; rv:143.0) Gecko/20100101 Firefox/143.0'')"

text \<open>\<^verbatim>\<open>SITE_DEFAULT_TZ.get(base_url, ZoneInfo("America/New_York"))\<close>.\<close>

definition SITE_DEFAULT_TZ :: "(ustr \<times> ustr) list" where
  "SITE_DEFAULT_TZ =
     [(lit ''https://nflwebcast.top/'', lit ''America/New_York''),
      (lit ''https://nhlstreams.org/nhlstreams-2/'', lit ''America/New_York''),
      (lit ''https://mlbstreams.live/'', lit ''America/New_York''),
      (lit ''https://mlswebcast.com/'', lit ''America/New_York''),
      (lit ''https://nbawebcast.top/'', lit ''America/New_York'')]"

definition site_default_tz :: "ustr \<Rightarrow> ustr" where
  "site_default_tz base_url =
     (case map_of SITE_DEFAULT_TZ base_url of Some z \<Rightarrow> z | None \<Rightarrow> lit ''America/New_York'')"

subsection \<open>The schedule scraper \<^verbatim>\<open>scrape_ppv_league\<close>\<close>

text \<open>
  What the HTML parser hands over for one table row: the two team texts, the
  \<^verbatim>\<open>src\<close> of the logo image if there is one, the \<^verbatim>\<open>data-team\<close> of the watch button, the
  slug \<^verbatim>\<open>_extract_backup_slug_from_el\<close> finds, the texts of the cells the time selectors
  pick (in the order of the selectors) and the text of the whole row. A row is a date
  header, a row to skip (no cells, or fewer than two texts), or a game.
\<close>

record ppv_row =
  r_away_team :: ustr
  r_home_team :: ustr
  r_logo_src :: "ustr option"
  r_team_key :: "ustr option"
  r_backup_slug :: "ustr option"
  r_time_cells :: "ustr list"
  r_tr_text :: ustr

datatype ppv_tr = DateRow ustr | SkipRow | GameRow ppv_row

datatype ppv_page = FetchFailed | NoScheduleTable | Page "ppv_tr list"

record ppv_config =
  cfg_base_url :: ustr
  cfg_group_name :: ustr
  cfg_tvg_id :: ustr
  cfg_default_logo :: ustr
  cfg_allowed_slugs :: "ustr set option"
  cfg_nickname_only :: bool

text \<open>The text the time is read from: the first selected cell that holds a time, else the
  whole row.\<close>

definition row_text :: "ppv_row \<Rightarrow> ustr" where
  "row_text r =
     (case find (\<lambda>t. re_search time_match None 0 t \<noteq> None) (r_time_cells r) of
        Some t \<Rightarrow> t
      | None \<Rightarrow> r_tr_text r)"

text \<open>The display name of a game row; \<^verbatim>\<open>parse_date_title\<close> is called outside any
  \<^verbatim>\<open>try\<close>.\<close>

definition row_match_name :: "tzdb \<Rightarrow> ustr \<Rightarrow> pydate \<Rightarrow> pydate option \<Rightarrow> ppv_row \<Rightarrow> py_error + ustr" where
  "row_match_name db site_tz today current_date r =
     (case parse_time_and_tz (row_text r) site_tz of
        (hh, mm, tzinfo) \<Rightarrow>
          (case parse_date_title (row_text r) today of
             Inl e \<Rightarrow> Inl e
           | Inr inline_date \<Rightarrow>
               (let game_date = (case inline_date of Some d \<Rightarrow> Some d | None \<Rightarrow> current_date);
                    dt_local = row_dt_local db game_date hh mm tzinfo
                in Inr (format_game_datetime
                          (normalize_game_name (r_away_team r @ lit '' @ '' @ r_home_team r)) dt_local))))"

text \<open>One game row: resolve the slug (rows without one are dropped), build the name, probe
  the stream address once more and append the event if the probe answers true.\<close>

definition ppv_game_row ::
  "net \<Rightarrow> tzdb \<Rightarrow> ppv_config \<Rightarrow> pydate \<Rightarrow> pydate option \<Rightarrow> ppv_row \<Rightarrow> stream_event list \<Rightarrow> ustr list
     \<Rightarrow> py_error + stream_event list \<times> ustr list" where
  "ppv_game_row nw db cfg today current_date r results log =
     (case resolve_row_slug nw (r_backup_slug r) (r_team_key r) (r_away_team r) (r_home_team r)
             (cfg_allowed_slugs cfg) (cfg_nickname_only cfg) log of
        (resolved_slug, log1) \<Rightarrow>
          if \<not> truthy resolved_slug then Inr (results, log1)
          else (case row_match_name db (site_default_tz (cfg_base_url cfg)) today current_date r of
                  Inl e \<Rightarrow> Inl e
                | Inr match_name \<Rightarrow>
                    (case probe nw (PPV_STREAM_URL_PATTERN (the resolved_slug)) log1 of
                       (ok, log2) \<Rightarrow>
                         if ok = Inr True
                         then Inr (results @
                                [\<lparr>ev_name = match_name,
                                  ev_url = PPV_STREAM_URL_PATTERN (the resolved_slug),
                                  ev_tvg_id = cfg_tvg_id cfg,
                                  ev_tvg_logo = (if truthy (r_logo_src r) then the (r_logo_src r)
                                                 else cfg_default_logo cfg),
                                  ev_group = cfg_group_name cfg @ lit '' - Live Games'',
                                  ev_ref = cfg_base_url cfg,
                                  ev_custom_headers = Some PPV_CUSTOM_HEADERS\<rparr>], log2)
                         else Inr (results, log2))))"

fun ppv_loop ::
  "net \<Rightarrow> tzdb \<Rightarrow> ppv_config \<Rightarrow> pydate \<Rightarrow> ppv_tr list \<Rightarrow> pydate option \<Rightarrow> stream_event list \<Rightarrow> ustr list
     \<Rightarrow> py_error + stream_event list \<times> ustr list" where
  "ppv_loop nw db cfg today [] current_date results log = Inr (results, log)"
| "ppv_loop nw db cfg today (DateRow t # trs) current_date results log =
     (case parse_date_title t today of
        Inl e \<Rightarrow> Inl e
      | Inr d \<Rightarrow>
          ppv_loop nw db cfg today trs (case d of Some x \<Rightarrow> Some x | None \<Rightarrow> current_date) results log)"
| "ppv_loop nw db cfg today (SkipRow # trs) current_date results log =
     ppv_loop nw db cfg today trs current_date results log"
| "ppv_loop nw db cfg today (GameRow r # trs) current_date results log =
     (case ppv_game_row nw db cfg today current_date r results log of
        Inl e \<Rightarrow> Inl e
      | Inr (results', log') \<Rightarrow> ppv_loop nw db cfg today trs current_date results' log')"

definition scrape_ppv_league ::
  "net \<Rightarrow> tzdb \<Rightarrow> ppv_config \<Rightarrow> pydate \<Rightarrow> ppv_page \<Rightarrow> ustr list \<Rightarrow> py_error + stream_event list \<times> ustr list" where
  "scrape_ppv_league nw db cfg today page log =
     (case page of
        FetchFailed \<Rightarrow> Inr ([], log)
      | NoScheduleTable \<Rightarrow> Inr ([], log)
      | Page trs \<Rightarrow> ppv_loop nw db cfg today trs None [] log)"

subsection \<open>The page scraper \<^verbatim>\<open>scrape_league\<close>\<close>

text \<open>
  What the browser hands over for one table row: whether the row has a link, the link's
  text and \<^verbatim>\<open>href\<close>, the nearest date title, the time text, and the outcome of loading
  the game page: the navigation raises, or the stream addresses requested by the page are
  collected in order. A channel is its address and the outcome of loading it.
\<close>

datatype nav = NavRaised | Sniffed "ustr list"

record league_row =
  lr_has_link :: bool
  lr_name :: ustr
  lr_href :: "ustr option"
  lr_date_text :: ustr
  lr_time_text :: ustr
  lr_page :: nav

datatype league_site = SiteRaised | Site "league_row list"

record league_config =
  lc_base_url :: ustr
  lc_group_prefix :: ustr
  lc_default_id :: ustr
  lc_default_logo :: ustr

type_synonym found_value = "ustr \<times> ustr \<times> local_dt option"

text \<open>\<^verbatim>\<open>find_stream_in_page\<close>: the collected addresses are probed from the last to the
  first, and the first that verifies is returned.\<close>

fun first_live :: "net \<Rightarrow> ustr list \<Rightarrow> ustr list \<Rightarrow> ustr option \<times> ustr list" where
  "first_live nw [] log = (None, log)"
| "first_live nw (s # ss) log =
     (case probe nw s log of
        (ok, log') \<Rightarrow> if ok = Inr True then (Some s, log') else first_live nw ss log')"

definition find_stream_in_page :: "net \<Rightarrow> nav \<Rightarrow> ustr list \<Rightarrow> py_error + ustr option \<times> ustr list" where
  "find_stream_in_page nw page log =
     (case page of
        NavRaised \<Rightarrow> Inl PlaywrightError
      | Sniffed candidates \<Rightarrow> Inr (first_live nw (rev candidates) log))"

text \<open>What one row contributes to \<open>found\<close>: nothing, or a key with its value.\<close>

definition league_row_entry ::
  "net \<Rightarrow> tzdb \<Rightarrow> league_config \<Rightarrow> pydate \<Rightarrow> league_row \<Rightarrow> ustr list
     \<Rightarrow> py_error + (ustr \<times> found_value) option \<times> ustr list" where
  "league_row_entry nw db cfg today row log =
     (if \<not> lr_has_link row then Inr (None, log)
      else if lr_name row = [] \<or> \<not> truthy (lr_href row) then Inr (None, log)
      else case parse_date_title (lr_date_text row) today of
        Inl e \<Rightarrow> Inl e
      | Inr game_date \<Rightarrow>
          (case parse_time_and_tz (lr_time_text row) (site_default_tz (lc_base_url cfg)) of
             (hh, mm, tzinfo) \<Rightarrow>
               (let dt_local = row_dt_local db game_date hh mm tzinfo
                in case find_stream_in_page nw (lr_page row) log of
                     Inl e \<Rightarrow> Inl e
                   | Inr (stream_url, log') \<Rightarrow>
                       if truthy stream_url
                       then Inr (Some (lr_name row, (the stream_url, lit ''Live Games'', dt_local)), log')
                       else Inr (None, log'))))"

text \<open>\<^verbatim>\<open>url.strip("/").split("/")[-1]\<close>.\<close>

definition channel_slug :: "ustr \<Rightarrow> ustr" where
  "channel_slug url =
     rev (takeWhile (\<lambda>c. c \<noteq> 47)
       (dropWhile (\<lambda>c. c = 47) (rev (dropWhile (\<lambda>c. c = 47) url))))"

definition channel_entry ::
  "net \<Rightarrow> ustr \<times> nav \<Rightarrow> ustr list \<Rightarrow> py_error + (ustr \<times> found_value) option \<times> ustr list" where
  "channel_entry nw ch log =
     (case find_stream_in_page nw (snd ch) log of
        Inl e \<Rightarrow> Inl e
      | Inr (stream_url, log') \<Rightarrow>
          if truthy stream_url
          then Inr (Some (channel_slug (fst ch), (the stream_url, lit ''24/7 Channels'', None)), log')
          else Inr (None, log'))"

text \<open>The two loops that fill \<open>found\<close>; \<^verbatim>\<open>found[key] = value\<close> replaces the value of a key
  that is already there and keeps its place, as \<open>AList.update\<close> does.\<close>

fun league_rows_loop ::
  "net \<Rightarrow> tzdb \<Rightarrow> league_config \<Rightarrow> pydate \<Rightarrow> league_row list \<Rightarrow> (ustr \<times> found_value) list \<Rightarrow> ustr list
     \<Rightarrow> py_error + (ustr \<times> found_value) list \<times> ustr list" where
  "league_rows_loop nw db cfg today [] found log = Inr (found, log)"
| "league_rows_loop nw db cfg today (row # rows) found log =
     (case league_row_entry nw db cfg today row log of
        Inl e \<Rightarrow> Inl e
      | Inr (None, log') \<Rightarrow> league_rows_loop nw db cfg today rows found log'
      | Inr (Some (k, v), log') \<Rightarrow> league_rows_loop nw db cfg today rows (AList.update k v found) log')"

fun channels_loop ::
  "net \<Rightarrow> (ustr \<times> nav) list \<Rightarrow> (ustr \<times> found_value) list \<Rightarrow> ustr list
     \<Rightarrow> py_error + (ustr \<times> found_value) list \<times> ustr list" where
  "channels_loop nw [] found log = Inr (found, log)"
| "channels_loop nw (ch # chs) found log =
     (case channel_entry nw ch log of
        Inl e \<Rightarrow> Inl e
      | Inr (None, log') \<Rightarrow> channels_loop nw chs found log'
      | Inr (Some (k, v), log') \<Rightarrow> channels_loop nw chs (AList.update k v found) log')"

text \<open>\<^verbatim>\<open>CHANNEL_METADATA\<close>: name, id and logo of the known channels.\<close>

definition CHANNEL_METADATA :: "(ustr \<times> ustr \<times> ustr \<times> ustr) list" where
  "CHANNEL_METADATA =
     [(lit ''nflnetwork'', lit ''NFL Network'', lit ''NFL.Network.HD.us2'',
       lit ''https://github.com/tv-logo/tv-logos/blob/main/countries/united-states/nfl-network-hz-us.png?raw=true''),
      (lit ''nflredzone'', lit ''NFL RedZone'', lit ''NFL.RedZone.HD.us2'',
       lit ''https://github.com/tv-logo/tv-logos/blob/main/countries/united-states/nfl-red-zone-hz-us.png?raw=true''),
      (lit ''espnusa'', lit ''ESPN'', lit ''ESPN.HD.us2'',
       lit ''https://github.com/tv-logo/tv-logos/blob/main/countries/united-states/espn-us.png?raw=true'')]"

text \<open>The event built for one entry of \<open>found\<close> in the closing loop.\<close>

definition league_event :: "league_config \<Rightarrow> ustr \<times> found_value \<Rightarrow> stream_event" where
  "league_event cfg entry =
     (case entry of
        (key, stream_url, category, dt_local) \<Rightarrow>
          (let info = map_of CHANNEL_METADATA key;
               base_name = (case info of Some (name, tid, logo) \<Rightarrow> (if name \<noteq> [] then name else key)
                            | None \<Rightarrow> key);
               display = (if 64 \<in> set key then key else base_name);
               pretty = format_game_datetime (normalize_game_name display) dt_local
           in \<lparr>ev_name = pretty,
               ev_url = stream_url,
               ev_tvg_id = (case info of Some (name, tid, logo) \<Rightarrow> tid | None \<Rightarrow> lc_default_id cfg),
               ev_tvg_logo = (case info of Some (name, tid, logo) \<Rightarrow> logo | None \<Rightarrow> lc_default_logo cfg),
               ev_group = lc_group_prefix cfg @ lit '' - '' @ category,
               ev_ref = lc_base_url cfg,
               ev_custom_headers = None\<rparr>))"

text \<open>\<^verbatim>\<open>scrape_league\<close>: rows, then channels, then one event for every item of
  \<^verbatim>\<open>sorted(found.items())\<close>; the keys of a dictionary differ, so the order is that of the
  keys, which Python compares code point by code point.\<close>

definition scrape_league ::
  "net \<Rightarrow> tzdb \<Rightarrow> league_config \<Rightarrow> pydate \<Rightarrow> league_site \<Rightarrow> (ustr \<times> nav) list \<Rightarrow> ustr list
     \<Rightarrow> py_error + stream_event list \<times> ustr list" where
  "scrape_league nw db cfg today site channels log =
     (case site of
        SiteRaised \<Rightarrow> Inl PlaywrightError
      | Site rows \<Rightarrow>
          (case league_rows_loop nw db cfg today rows [] log of
             Inl e \<Rightarrow> Inl e
           | Inr (found1, log1) \<Rightarrow>
               (case channels_loop nw channels found1 log1 of
                  Inl e \<Rightarrow> Inl e
                | Inr (found, log2) \<Rightarrow> Inr (map (league_event cfg) (sort_key fst found), log2))))"

text \<open>
  The entries assembled in a run, in the order of assembly, without the dictionary: the
  list that states which entry of a key is the first and which the last.
\<close>

fun row_entries ::
  "net \<Rightarrow> tzdb \<Rightarrow> league_config \<Rightarrow> pydate \<Rightarrow> league_row list \<Rightarrow> ustr list
     \<Rightarrow> py_error + (ustr \<times> found_value) list \<times> ustr list" where
  "row_entries nw db cfg today [] log = Inr ([], log)"
| "row_entries nw db cfg today (row # rows) log =
     (case league_row_entry nw db cfg today row log of
        Inl e \<Rightarrow> Inl e
      | Inr (e, log') \<Rightarrow>
          (case row_entries nw db cfg today rows log' of
             Inl x \<Rightarrow> Inl x
           | Inr (es, log'') \<Rightarrow> Inr ((case e of Some kv \<Rightarrow> [kv] | None \<Rightarrow> []) @ es, log'')))"

fun channel_entries ::
  "net \<Rightarrow> (ustr \<times> nav) list \<Rightarrow> ustr list \<Rightarrow> py_error + (ustr \<times> found_value) list \<times> ustr list" where
  "channel_entries nw [] log = Inr ([], log)"
| "channel_entries nw (ch # chs) log =
     (case channel_entry nw ch log of
        Inl e \<Rightarrow> Inl e
      | Inr (e, log') \<Rightarrow>
          (case channel_entries nw chs log' of
             Inl x \<Rightarrow> Inl x
           | Inr (es, log'') \<Rightarrow> Inr ((case e of Some kv \<Rightarrow> [kv] | None \<Rightarrow> []) @ es, log'')))"

definition assembled ::
  "net \<Rightarrow> tzdb \<Rightarrow> league_config \<Rightarrow> pydate \<Rightarrow> league_row list \<Rightarrow> (ustr \<times> nav) list \<Rightarrow> ustr list
     \<Rightarrow> py_error + (ustr \<times> found_value) list \<times> ustr list" where
  "assembled nw db cfg today rows channels log =
     (case row_entries nw db cfg today rows log of
        Inl e \<Rightarrow> Inl e
      | Inr (es1, log1) \<Rightarrow>
          (case channel_entries nw channels log1 of
             Inl e \<Rightarrow> Inl e
           | Inr (es2, log2) \<Rightarrow> Inr (es1 @ es2, log2)))"

section \<open>Properties of candidate generation\<close>

lemma truthy_Some [simp]: "truthy (Some s) = (s \<noteq> [])"
  by (simp add: truthy_def)

lemma truthy_None [simp]: "\<not> truthy None"
  by (simp add: truthy_def)

lemma truthy_the: "truthy m \<Longrightarrow> m = Some (the m) \<and> the m \<noteq> []"
  by (cases m) simp_all

lemma add_hit_nonempty: "[] \<notin> set out \<Longrightarrow> [] \<notin> set (add_hit out m)"
  by (auto simp: add_hit_def dest: truthy_the)

lemma add_new_hit_nonempty: "[] \<notin> set out \<Longrightarrow> [] \<notin> set (add_new_hit out m)"
  by (auto simp: add_new_hit_def dest: truthy_the)

lemma general_candidates_nonempty: "[] \<notin> set (general_candidates txt)"
  by (auto simp: general_candidates_def Let_def intro!: add_hit_nonempty add_new_hit_nonempty)

lemma dedup_nonempty_nonempty: "[] \<notin> set out \<Longrightarrow> [] \<notin> set (dedup_nonempty out cs)"
  by (induction out cs rule: dedup_nonempty.induct) auto

lemma nickname_only_candidates_nonempty: "[] \<notin> set (nickname_only_candidates txt)"
  by (simp add: nickname_only_candidates_def Let_def dedup_nonempty_nonempty)

lemma expand_nba_loop_nonempty:
  "[] \<notin> set out \<Longrightarrow> [] \<notin> set ns \<Longrightarrow> [] \<notin> set (expand_nba_loop out ns)"
proof (induction out ns rule: expand_nba_loop.induct)
  case (1 out)
  then show ?case by simp
next
  case (2 out n ns)
  have "lit ''nba_'' \<noteq> []" by (simp add: lit_def)
  with 2 show ?case
    by (auto simp: Let_def split: option.splits)
qed

lemma build_candidates_nonempty: "[] \<notin> set (build_candidates nickname_only txt)"
  by (simp add: build_candidates_def expand_nba_candidates_def general_candidates_nonempty
      expand_nba_loop_nonempty nickname_only_candidates_nonempty)

lemma home_general_candidates_eq: "home_general_candidates txt = general_candidates txt"
  by (simp add: home_general_candidates_def general_candidates_def)

lemma home_match_candidates_eq:
  "home_match_candidates home_text nickname_only = set (build_candidates nickname_only home_text)"
  by (simp add: home_match_candidates_def build_candidates_def home_general_candidates_eq)

section \<open>Evaluation of text at concrete inputs\<close>

lemma lit_eq_iff [simp]: "lit a = lit b \<longleftrightarrow> a = b"
  by (simp add: lit_def inj_map_eq_map inj_on_def)

lemma lit_Nil_iff [simp]: "lit a = [] \<longleftrightarrow> a = []"
  by (simp add: lit_def)

lemmas text_eval = lit_def py_strip_def py_isspace_def py_lower_def lower_cp_def
  is_upper_ascii_def is_lower_ascii_def is_digit_ascii_def slug_def py_split_def last_two_def

lemma general_candidates_eval:
  assumes "py_lower (py_strip t) = txt" and "collapse_ws txt = bn"
    and "map_of NFL_TEAM_SLUGS bn = m1" and "map_of NHL_TEAM_SLUGS bn = m2"
    and "py_split bn = parts"
    and "(if parts \<noteq> [] then slug (last parts) else []) = lw"
    and "(if length parts \<ge> 2 then slug (py_join (lit '' '') (last_two parts)) else []) = tw"
    and "map_of NFL_NICK_SLUGS tw = n1" and "map_of NFL_NICK_SLUGS lw = n2"
    and "map_of NHL_NICK_SLUGS tw = n3" and "map_of NHL_NICK_SLUGS lw = n4"
    and "slug bn = j"
  shows "general_candidates t =
     (let out2 = add_new_hit (add_new_hit (add_new_hit (add_new_hit (add_hit (add_hit [] m1) m2) n1) n2) n3) n4
      in if j \<noteq> [] \<and> j \<notin> set out2 then out2 @ [j] else out2)"
  by (simp only: general_candidates_def Let_def assms foldl_Cons foldl_Nil)

lemma general_candidates_eagles:
  "general_candidates (lit ''Philadelphia Eagles'') = [lit ''philadelphiaeagles'']"
proof -
  have 1: "py_lower (py_strip (lit ''Philadelphia Eagles'')) = lit ''philadelphia eagles''"
    by (simp add: text_eval)
  have 2: "collapse_ws (lit ''philadelphia eagles'') = lit ''philadelphia eagles''"
    by (simp add: text_eval)
  have 3: "map_of NFL_TEAM_SLUGS (lit ''philadelphia eagles'') = Some (lit ''philadelphiaeagles'')"
    by (simp add: NFL_TEAM_SLUGS_def)
  have 4: "map_of NHL_TEAM_SLUGS (lit ''philadelphia eagles'') = None"
    by (simp add: NHL_TEAM_SLUGS_def)
  have 5: "py_split (lit ''philadelphia eagles'') = [lit ''philadelphia'', lit ''eagles'']"
    by (simp add: text_eval)
  have 6: "(if [lit ''philadelphia'', lit ''eagles''] \<noteq> [] then slug (last [lit ''philadelphia'', lit ''eagles'']) else []) = lit ''eagles''"
    by (simp add: text_eval)
  have 7: "(if length [lit ''philadelphia'', lit ''eagles''] \<ge> 2 then slug (py_join (lit '' '') (last_two [lit ''philadelphia'', lit ''eagles''])) else []) = lit ''philadelphiaeagles''"
    by (simp add: text_eval)
  have 8: "map_of NFL_NICK_SLUGS (lit ''philadelphiaeagles'') = None"
    by (simp add: NFL_NICK_SLUGS_def)
  have 9: "map_of NFL_NICK_SLUGS (lit ''eagles'') = Some (lit ''philadelphiaeagles'')"
    by (simp add: NFL_NICK_SLUGS_def)
  have 10: "map_of NHL_NICK_SLUGS (lit ''philadelphiaeagles'') = None"
    by (simp add: NHL_NICK_SLUGS_def)
  have 11: "map_of NHL_NICK_SLUGS (lit ''eagles'') = None"
    by (simp add: NHL_NICK_SLUGS_def)
  have 12: "slug (lit ''philadelphia eagles'') = lit ''philadelphiaeagles''"
    by (simp add: text_eval)
  show ?thesis
    by (simp add: general_candidates_eval [OF 1 2 3 4 5 6 7 8 9 10 11 12] add_hit_def add_new_hit_def)
qed

lemma general_candidates_cowboys:
  "general_candidates (lit ''Dallas Cowboys'') = [lit ''dallascowboys'']"
proof -
  have 1: "py_lower (py_strip (lit ''Dallas Cowboys'')) = lit ''dallas cowboys''"
    by (simp add: text_eval)
  have 2: "collapse_ws (lit ''dallas cowboys'') = lit ''dallas cowboys''"
    by (simp add: text_eval)
  have 3: "map_of NFL_TEAM_SLUGS (lit ''dallas cowboys'') = Some (lit ''dallascowboys'')"
    by (simp add: NFL_TEAM_SLUGS_def)
  have 4: "map_of NHL_TEAM_SLUGS (lit ''dallas cowboys'') = None"
    by (simp add: NHL_TEAM_SLUGS_def)
  have 5: "py_split (lit ''dallas cowboys'') = [lit ''dallas'', lit ''cowboys'']"
    by (simp add: text_eval)
  have 6: "(if [lit ''dallas'', lit ''cowboys''] \<noteq> [] then slug (last [lit ''dallas'', lit ''cowboys'']) else []) = lit ''cowboys''"
    by (simp add: text_eval)
  have 7: "(if length [lit ''dallas'', lit ''cowboys''] \<ge> 2 then slug (py_join (lit '' '') (last_two [lit ''dallas'', lit ''cowboys''])) else []) = lit ''dallascowboys''"
    by (simp add: text_eval)
  have 8: "map_of NFL_NICK_SLUGS (lit ''dallascowboys'') = None"
    by (simp add: NFL_NICK_SLUGS_def)
  have 9: "map_of NFL_NICK_SLUGS (lit ''cowboys'') = Some (lit ''dallascowboys'')"
    by (simp add: NFL_NICK_SLUGS_def)
  have 10: "map_of NHL_NICK_SLUGS (lit ''dallascowboys'') = None"
    by (simp add: NHL_NICK_SLUGS_def)
  have 11: "map_of NHL_NICK_SLUGS (lit ''cowboys'') = None"
    by (simp add: NHL_NICK_SLUGS_def)
  have 12: "slug (lit ''dallas cowboys'') = lit ''dallascowboys''"
    by (simp add: text_eval)
  show ?thesis
    by (simp add: general_candidates_eval [OF 1 2 3 4 5 6 7 8 9 10 11 12] add_hit_def add_new_hit_def)
qed

lemma general_candidates_panthers:
  "general_candidates (lit ''Florida Panthers'') = [lit ''floridapanthers'', lit ''carolinapanthers'']"
proof -
  have 1: "py_lower (py_strip (lit ''Florida Panthers'')) = lit ''florida panthers''"
    by (simp add: text_eval)
  have 2: "collapse_ws (lit ''florida panthers'') = lit ''florida panthers''"
    by (simp add: text_eval)
  have 3: "map_of NFL_TEAM_SLUGS (lit ''florida panthers'') = None"
    by (simp add: NFL_TEAM_SLUGS_def)
  have 4: "map_of NHL_TEAM_SLUGS (lit ''florida panthers'') = Some (lit ''floridapanthers'')"
    by (simp add: NHL_TEAM_SLUGS_def)
  have 5: "py_split (lit ''florida panthers'') = [lit ''florida'', lit ''panthers'']"
    by (simp add: text_eval)
  have 6: "(if [lit ''florida'', lit ''panthers''] \<noteq> [] then slug (last [lit ''florida'', lit ''panthers'']) else []) = lit ''panthers''"
    by (simp add: text_eval)
  have 7: "(if length [lit ''florida'', lit ''panthers''] \<ge> 2 then slug (py_join (lit '' '') (last_two [lit ''florida'', lit ''panthers''])) else []) = lit ''floridapanthers''"
    by (simp add: text_eval)
  have 8: "map_of NFL_NICK_SLUGS (lit ''floridapanthers'') = None"
    by (simp add: NFL_NICK_SLUGS_def)
  have 9: "map_of NFL_NICK_SLUGS (lit ''panthers'') = Some (lit ''carolinapanthers'')"
    by (simp add: NFL_NICK_SLUGS_def)
  have 10: "map_of NHL_NICK_SLUGS (lit ''floridapanthers'') = None"
    by (simp add: NHL_NICK_SLUGS_def)
  have 11: "map_of NHL_NICK_SLUGS (lit ''panthers'') = Some (lit ''floridapanthers'')"
    by (simp add: NHL_NICK_SLUGS_def)
  have 12: "slug (lit ''florida panthers'') = lit ''floridapanthers''"
    by (simp add: text_eval)
  show ?thesis
    by (simp add: general_candidates_eval [OF 1 2 3 4 5 6 7 8 9 10 11 12] add_hit_def add_new_hit_def)
qed

lemma general_candidates_punct:
  "general_candidates (lit ''!!!'') = []"
proof -
  have 1: "py_lower (py_strip (lit ''!!!'')) = lit ''!!!''"
    by (simp add: text_eval)
  have 2: "collapse_ws (lit ''!!!'') = lit ''!!!''"
    by (simp add: text_eval)
  have 3: "map_of NFL_TEAM_SLUGS (lit ''!!!'') = None"
    by (simp add: NFL_TEAM_SLUGS_def)
  have 4: "map_of NHL_TEAM_SLUGS (lit ''!!!'') = None"
    by (simp add: NHL_TEAM_SLUGS_def)
  have 5: "py_split (lit ''!!!'') = [lit ''!!!'']"
    by (simp add: text_eval)
  have 6: "(if [lit ''!!!''] \<noteq> [] then slug (last [lit ''!!!'']) else []) = lit ''''"
    by (simp add: text_eval)
  have 7: "(if length [lit ''!!!''] \<ge> 2 then slug (py_join (lit '' '') (last_two [lit ''!!!''])) else []) = lit ''''"
    by (simp add: text_eval)
  have 8: "map_of NFL_NICK_SLUGS (lit '''') = None"
    by (simp add: NFL_NICK_SLUGS_def)
  have 9: "map_of NFL_NICK_SLUGS (lit '''') = None"
    by (simp add: NFL_NICK_SLUGS_def)
  have 10: "map_of NHL_NICK_SLUGS (lit '''') = None"
    by (simp add: NHL_NICK_SLUGS_def)
  have 11: "map_of NHL_NICK_SLUGS (lit '''') = None"
    by (simp add: NHL_NICK_SLUGS_def)
  have 12: "slug (lit ''!!!'') = lit ''''"
    by (simp add: text_eval)
  show ?thesis
    by (simp add: general_candidates_eval [OF 1 2 3 4 5 6 7 8 9 10 11 12] add_hit_def add_new_hit_def)
qed

section \<open>The endpoint verifier never raises\<close>

text \<open>
  Claim C9. The endpoint verifier returns true if and only if the probe yields the
  status 200; every fault, timeout or other status makes it return false, and no
  exception leaves the function: for every outcome \<open>r\<close> of the request the result is a
  returned boolean, and that boolean is true exactly for a response with status 200.
\<close>

theorem verify_stream_url_never_raises:
  "\<exists>b. verify_stream_url r = Inr b \<and> b = (r = Inr 200)"
  by (cases r) (auto simp: verify_stream_url_def)

section \<open>The resolver: allow-list, precedence, backup slug\<close>

lemma first_verified_allowed:
  "first_verified nw (Some A) cands log = (Some s, log') \<Longrightarrow> s \<in> A"
  by (induction cands arbitrary: log) (auto split: if_splits prod.splits)

lemma first_verified_member:
  "first_verified nw al cands log = (Some s, log') \<Longrightarrow> s \<in> set cands"
  by (induction cands arbitrary: log) (auto split: if_splits prod.splits)

lemma first_verified_log:
  "first_verified nw al cands log = (r, log') \<Longrightarrow>
     \<exists>ps. log' = log @ map PPV_STREAM_URL_PATTERN ps \<and> set ps \<subseteq> set cands"
proof (induction cands arbitrary: log)
  case Nil
  then show ?case by simp
next
  case (Cons s cands)
  show ?case
  proof (cases "case al of Some A \<Rightarrow> s \<notin> A | None \<Rightarrow> False")
    case True
    with Cons.prems have "first_verified nw al cands log = (r, log')" by simp
    from Cons.IH [OF this] show ?thesis by auto
  next
    case skip: False
    show ?thesis
    proof (cases "verify_stream_url (nw log (PPV_STREAM_URL_PATTERN s)) = Inr True")
      case True
      with skip Cons.prems have "log' = log @ map PPV_STREAM_URL_PATTERN [s]"
        by (simp add: probe_def)
      then show ?thesis by (intro exI [of _ "[s]"]) simp
    next
      case False
      with skip Cons.prems
      have "first_verified nw al cands (log @ [PPV_STREAM_URL_PATTERN s]) = (r, log')"
        by (simp add: probe_def)
      from Cons.IH [OF this] obtain ps
        where "log' = (log @ [PPV_STREAM_URL_PATTERN s]) @ map PPV_STREAM_URL_PATTERN ps"
          and "set ps \<subseteq> set cands" by blast
      then show ?thesis by (intro exI [of _ "s # ps"]) auto
    qed
  qed
qed

text \<open>
  Claim C10. Whenever the slug resolver is called with an allow-list, any slug it returns
  is a member of that allow-list, whichever of the three stages (home candidates, away
  candidates, page-supplied key) produced it.
\<close>

theorem resolve_team_slug_allowed:
  "resolve_team_slug nw data_team away home (Some A) nickname_only log = (Some s, log') \<Longrightarrow> s \<in> A"
  by (auto simp: resolve_team_slug_def split: prod.splits if_splits dest: first_verified_allowed)

theorem resolve_team_slug_allowed_witness:
  "resolve_team_slug (\<lambda>log url. Inr 200) None (lit ''Dallas Cowboys'') (lit ''Philadelphia Eagles'')
     (Some {lit ''philadelphiaeagles''}) False []
   = (Some (lit ''philadelphiaeagles''), [PPV_STREAM_URL_PATTERN (lit ''philadelphiaeagles'')])
   \<and> lit ''philadelphiaeagles'' \<in> {lit ''philadelphiaeagles''}"
proof -
  have r: "resolve_team_slug (\<lambda>log url. Inr 200) None (lit ''Dallas Cowboys'') (lit ''Philadelphia Eagles'')
     (Some {lit ''philadelphiaeagles''}) False []
   = (Some (lit ''philadelphiaeagles''), [PPV_STREAM_URL_PATTERN (lit ''philadelphiaeagles'')])"
    by (simp add: resolve_team_slug_def build_candidates_def general_candidates_eagles
        probe_def verify_stream_url_def)
  from resolve_team_slug_allowed [OF r] r show ?thesis by simp
qed

lemma PPV_STREAM_URL_PATTERN_inj [simp]:
  "PPV_STREAM_URL_PATTERN a = PPV_STREAM_URL_PATTERN b \<longleftrightarrow> a = b"
  by (simp add: PPV_STREAM_URL_PATTERN_def)



text \<open>
  Claim C4. A backup slug declared by the page is the resolved slug of the row only when
  its probe verifies and it is one of the home team's candidates (the candidates the
  resolver itself builds for the home text); in that case no further probe is made.
  Otherwise it is ignored and the resolver runs on the row, after the backup probe if one
  was made.
\<close>

theorem resolve_row_slug_backup:
  "resolve_row_slug nw backup_slug team_key away home al nick log =
     (if truthy backup_slug
         \<and> fst (probe nw (PPV_STREAM_URL_PATTERN (the backup_slug)) log) = Inr True
         \<and> the backup_slug \<in> set (build_candidates nick home)
      then (backup_slug, log @ [PPV_STREAM_URL_PATTERN (the backup_slug)])
      else resolve_team_slug nw team_key away home al nick
             (if truthy backup_slug then log @ [PPV_STREAM_URL_PATTERN (the backup_slug)] else log))"
  by (auto simp: resolve_row_slug_def home_match_candidates_eq probe_def split: prod.splits)

theorem resolve_row_slug_backup_witness:
  "resolve_row_slug (\<lambda>log url. Inr 200) (Some (lit ''philadelphiaeagles'')) None
      (lit ''Dallas Cowboys'') (lit ''Philadelphia Eagles'') None False []
     = (Some (lit ''philadelphiaeagles''), [PPV_STREAM_URL_PATTERN (lit ''philadelphiaeagles'')])
   \<and> resolve_row_slug (\<lambda>log url. Inr 200) (Some (lit ''dallascowboys'')) None
      (lit ''Dallas Cowboys'') (lit ''Philadelphia Eagles'') None False []
     = resolve_team_slug (\<lambda>log url. Inr 200) None (lit ''Dallas Cowboys'') (lit ''Philadelphia Eagles'')
         None False [PPV_STREAM_URL_PATTERN (lit ''dallascowboys'')]"
proof -
  have 1: "resolve_row_slug (\<lambda>log url. Inr 200) (Some (lit ''philadelphiaeagles'')) None
      (lit ''Dallas Cowboys'') (lit ''Philadelphia Eagles'') None False []
     = (Some (lit ''philadelphiaeagles''), [PPV_STREAM_URL_PATTERN (lit ''philadelphiaeagles'')])"
    by (simp add: resolve_row_slug_backup build_candidates_def general_candidates_eagles
        probe_def verify_stream_url_def)
  have 2: "resolve_row_slug (\<lambda>log url. Inr 200) (Some (lit ''dallascowboys'')) None
      (lit ''Dallas Cowboys'') (lit ''Philadelphia Eagles'') None False []
     = resolve_team_slug (\<lambda>log url. Inr 200) None (lit ''Dallas Cowboys'') (lit ''Philadelphia Eagles'')
         None False [PPV_STREAM_URL_PATTERN (lit ''dallascowboys'')]"
    by (simp add: resolve_row_slug_backup build_candidates_def general_candidates_eagles
        probe_def verify_stream_url_def)
  from 1 2 show ?thesis by simp
qed

section \<open>The raw slug as fallback candidate\<close>

lemma slug_keep: "slug s = map lower_cp (filter keep s)"
  by (simp add: slug_def py_lower_def filter_map comp_def keep_def [abs_def])

lemma space_not_kept: "py_isspace c \<Longrightarrow> \<not> keep c"
  by (auto simp: py_isspace_def keep_def lower_cp_def is_upper_ascii_def is_lower_ascii_def
      is_digit_ascii_def)

lemma keep_lower_cp [simp]: "keep (lower_cp c) = keep c"
  by (auto simp: keep_def lower_cp_def is_upper_ascii_def)

lemma lower_cp_idem [simp]: "lower_cp (lower_cp c) = lower_cp c"
  by (auto simp: lower_cp_def is_upper_ascii_def)

lemma filter_keep_dropWhile: "filter keep (dropWhile py_isspace s) = filter keep s"
  by (induction s) (auto simp: space_not_kept)

lemma filter_keep_strip: "filter keep (py_strip s) = filter keep s"
proof -
  have "filter keep (py_strip s) = rev (filter keep (dropWhile py_isspace (rev (dropWhile py_isspace s))))"
    by (simp add: py_strip_def rev_filter)
  also have "\<dots> = rev (filter keep (rev (dropWhile py_isspace s)))"
    by (simp add: filter_keep_dropWhile)
  also have "\<dots> = filter keep s"
    by (simp add: rev_filter filter_keep_dropWhile)
  finally show ?thesis .
qed

lemma filter_keep_collapse: "filter keep (collapse_ws s) = filter keep s"
proof (induction s rule: collapse_ws.induct)
  case 1
  then show ?case by simp
next
  case (2 c cs)
  have "\<not> keep 32" using space_not_kept [of 32] by (simp add: py_isspace_def)
  with 2 show ?case
    by (auto simp: filter_keep_dropWhile space_not_kept)
qed

lemma slug_py_lower: "slug (py_lower s) = slug s"
  by (simp add: slug_keep py_lower_def filter_map comp_def)

lemma slug_base_norm: "slug (collapse_ws (py_lower (py_strip t))) = slug t"
proof -
  have "slug (collapse_ws (py_lower (py_strip t))) = map lower_cp (filter keep (py_lower (py_strip t)))"
    by (simp add: slug_keep filter_keep_collapse)
  also have "\<dots> = slug (py_lower (py_strip t))" by (simp add: slug_keep)
  also have "\<dots> = slug (py_strip t)" by (rule slug_py_lower)
  also have "\<dots> = slug t" by (simp add: slug_keep filter_keep_strip)
  finally show ?thesis .
qed

lemma map_of_table_slugs:
  "truthy (map_of T k) \<Longrightarrow> snd ` set T \<subseteq> table_slugs \<Longrightarrow> the (map_of T k) \<in> table_slugs"
  by (cases "map_of T k") (auto dest!: map_of_SomeD)

lemma add_hit_table:
  "set out \<subseteq> table_slugs \<Longrightarrow> snd ` set T \<subseteq> table_slugs
     \<Longrightarrow> set (add_hit out (map_of T k)) \<subseteq> table_slugs"
  using map_of_table_slugs [of T k] by (auto simp: add_hit_def)

lemma add_new_hit_table:
  "set out \<subseteq> table_slugs \<Longrightarrow> snd ` set T \<subseteq> table_slugs
     \<Longrightarrow> set (add_new_hit out (map_of T k)) \<subseteq> table_slugs"
  using map_of_table_slugs [of T k] by (auto simp: add_new_hit_def)

lemma tables_in_table_slugs:
  "snd ` set NFL_TEAM_SLUGS \<subseteq> table_slugs" "snd ` set NHL_TEAM_SLUGS \<subseteq> table_slugs"
  "snd ` set NFL_NICK_SLUGS \<subseteq> table_slugs" "snd ` set NHL_NICK_SLUGS \<subseteq> table_slugs"
  by (auto simp: table_slugs_def)




section \<open>Year inference\<close>

lemma div_step:
  assumes "0 < (k::int)"
  shows "y div k = (y - 1) div k + (if y mod k = 0 then 1 else 0)"
proof -
  define q where "q = y div k"
  define r where "r = y mod k"
  have y: "y = k * q + r" by (simp add: q_def r_def)
  have r: "0 \<le> r" "r < k" using assms by (simp_all add: r_def)
  show ?thesis
  proof (cases "r = 0")
    case True
    then have "y - 1 = k * (q - 1) + (k - 1)" by (simp add: y right_diff_distrib)
    moreover have "0 \<le> k - 1" "k - 1 < k" using assms by simp_all
    ultimately have "(y - 1) div k = q - 1" by (rule int_div_pos_eq)
    with True show ?thesis by (simp add: q_def r_def)
  next
    case False
    have "y - 1 = k * q + (r - 1)" by (simp add: y)
    moreover have "0 \<le> r - 1" "r - 1 < k" using r False by simp_all
    ultimately have "(y - 1) div k = q" by (rule int_div_pos_eq)
    with False show ?thesis by (simp add: q_def r_def)
  qed
qed

lemma days_before_year_step:
  "days_before_year (y + 1) - days_before_year y = 365 + (if is_leap y then 1 else 0)"
proof -
  define q4 where "q4 = (y - 1) div 4"
  define q100 where "q100 = (y - 1) div 100"
  define q400 where "q400 = (y - 1) div 400"
  define A where "A \<longleftrightarrow> y mod 4 = 0"
  define B where "B \<longleftrightarrow> y mod 100 = 0"
  define C where "C \<longleftrightarrow> y mod 400 = 0"
  define a where "a = (if A then 1 else (0::int))"
  define b where "b = (if B then 1 else (0::int))"
  define c where "c = (if C then 1 else (0::int))"
  have d4: "y div 4 = q4 + a" unfolding q4_def a_def A_def by (rule div_step) simp
  have d100: "y div 100 = q100 + b" unfolding q100_def b_def B_def by (rule div_step) simp
  have d400: "y div 400 = q400 + c" unfolding q400_def c_def C_def by (rule div_step) simp
  have "y mod 400 = 0 \<Longrightarrow> y mod 100 = 0" by auto
  then have CB: "C \<Longrightarrow> B" by (simp only: B_def C_def)
  have "y mod 100 = 0 \<Longrightarrow> y mod 4 = 0" by auto
  then have BA: "B \<Longrightarrow> A" by (simp only: A_def B_def)
  have leap: "is_leap y = (A \<and> (\<not> B \<or> C))"
    by (simp only: is_leap_def A_def B_def C_def)
  have l: "(if is_leap y then 1 else 0) = a - b + c"
    unfolding leap a_def b_def c_def using CB BA by (cases A; cases B; cases C) simp_all
  have n: "days_before_year (y + 1) = y * 365 + (q4 + a) - (q100 + b) + (q400 + c)"
    by (simp add: days_before_year_def d4 d100 d400)
  have p: "days_before_year y = (y - 1) * 365 + q4 - q100 + q400"
    by (simp only: days_before_year_def q4_def q100_def q400_def)
  have "days_before_year (y + 1) - days_before_year y = 365 + (a - b + c)"
    unfolding n p by (simp add: left_diff_distrib)
  with l show ?thesis by simp
qed

lemma month_cases:
  "1 \<le> (m::int) \<Longrightarrow> m \<le> 12 \<Longrightarrow>
     m = 1 \<or> m = 2 \<or> m = 3 \<or> m = 4 \<or> m = 5 \<or> m = 6 \<or> m = 7 \<or> m = 8 \<or> m = 9 \<or> m = 10 \<or> m = 11 \<or> m = 12"
  by arith

lemma day_of_year_bounds:
  assumes "1 \<le> m" "m \<le> 12" "1 \<le> d" "d \<le> days_in_month y m"
  shows "1 \<le> days_before_month y m + d"
    and "days_before_month y m + d \<le> 365 + (if is_leap y then 1 else 0)"
  using month_cases [OF assms(1,2)] assms(3,4)
  by (auto simp: days_before_month_def days_in_month_def)

lemma toordinal_in_year:
  assumes "valid_date x"
  shows "days_before_year (d_year x) + 1 \<le> toordinal x"
    and "toordinal x \<le> days_before_year (d_year x) + 365 + (if is_leap (d_year x) then 1 else 0)"
proof -
  from assms have v: "1 \<le> d_month x" "d_month x \<le> 12" "1 \<le> d_day x"
      "d_day x \<le> days_in_month (d_year x) (d_month x)"
    by (auto simp: valid_date_def mk_date_def split: if_splits)
  from day_of_year_bounds [OF v]
  show "days_before_year (d_year x) + 1 \<le> toordinal x"
    and "toordinal x \<le> days_before_year (d_year x) + 365 + (if is_leap (d_year x) then 1 else 0)"
    by (auto simp: toordinal_def)
qed

lemma mk_date_valid: "mk_date y m d = Some x \<Longrightarrow> valid_date x \<and> d_year x = y \<and> d_month x = m \<and> d_day x = d"
  by (auto simp: mk_date_def valid_date_def split: if_splits)

lemma same_year_distance:
  assumes "valid_date a" "valid_date b" "d_year a = d_year b"
  shows "\<bar>toordinal a - toordinal b\<bar> \<le> 365"
  using toordinal_in_year [OF assms(1)] toordinal_in_year [OF assms(2)] assms(3)
  by (auto split: if_splits)

lemma next_year_shift:
  assumes "mk_date y m d = Some a" "mk_date (y + 1) m d = Some b"
  shows "toordinal b - toordinal a = 365 \<or> toordinal b - toordinal a = 366"
proof -
  from assms have f: "a = \<lparr>d_year = y, d_month = m, d_day = d\<rparr>" "b = \<lparr>d_year = y + 1, d_month = m, d_day = d\<rparr>"
    by (auto simp: mk_date_def split: if_splits)
  have "toordinal b - toordinal a
      = (days_before_year (y + 1) - days_before_year y) + (days_before_month (y + 1) m - days_before_month y m)"
    by (simp add: f toordinal_def)
  also have "\<dots> = 365 + (if is_leap y then 1 else 0) + (days_before_month (y + 1) m - days_before_month y m)"
    by (simp only: days_before_year_step)
  finally have eq: "toordinal b - toordinal a
      = 365 + (if is_leap y then 1 else 0) + (days_before_month (y + 1) m - days_before_month y m)" .
  have "is_leap y \<Longrightarrow> y mod 4 = 0" "is_leap (y + 1) \<Longrightarrow> (y + 1) mod 4 = 0"
    by (simp_all add: is_leap_def)
  moreover have "\<not> (y mod 4 = 0 \<and> (y + 1) mod 4 = 0)" by presburger
  ultimately have nl: "\<not> (is_leap y \<and> is_leap (y + 1))" by meson
  show ?thesis
  proof (cases "m > 2")
    case True
    then have "days_before_month (y + 1) m - days_before_month y m
        = (if is_leap (y + 1) then 1 else 0) - (if is_leap y then 1 else 0)"
      by (simp add: days_before_month_def)
    with eq nl show ?thesis by (auto split: if_splits)
  next
    case False
    then have "days_before_month (y + 1) m - days_before_month y m = 0"
      by (simp add: days_before_month_def)
    with eq show ?thesis by (auto split: if_splits)
  qed
qed

lemmas date_eval = mk_date_def days_in_month_def is_leap_def toordinal_def days_before_year_def
  days_before_month_def guess_year_def

lemma parse_dec_28:
  "parse_date_title (lit ''Dec 28'') \<lparr>d_year = 2025, d_month = 1, d_day = 5\<rparr>
     = Inr (Some \<lparr>d_year = 2024, d_month = 12, d_day = 28\<rparr>)"
proof -
  have 1: "py_join (lit '' '') (py_split (lit ''Dec 28'')) = lit ''Dec 28''"
    by (simp add: text_eval)
  have 2: "re_search date_match None 0 (lit ''Dec 28'') = Some (0, lit ''Dec'', lit ''28'', None)"
    by (simp add: Let_def date_match_def month_name_rest_def month_names_def ci_prefix_def text_eval
        boundary_def word_opt_def hd_opt_def is_word_def is_alpha_ascii_def)
  have 3: "month_str_to_num (lit ''Dec'') = 12"
    by (simp add: month_str_to_num_def month_numbers_def strip_dots_def text_eval)
  have 4: "int_of_digits (lit ''28'') = 28"
    by (simp add: int_of_digits_def lit_def)
  have 5: "guess_year 12 28 \<lparr>d_year = 2025, d_month = 1, d_day = 5\<rparr> = Inr 2024"
    by (simp add: date_eval)
  show ?thesis
    by (simp add: parse_date_title_def 1 2 3 4 5) (simp add: date_eval)
qed

text \<open>
  Claim C5 (as amended). For a month and day parsed without a year that form a date of
  the reference year, the inferred year is the reference year exactly when that date lies
  at most 180 days from the reference date, the next year when it lies more than 180 days
  before it, and the previous year when it lies more than 180 days after it. The date in
  the inferred year, when it exists, is at most 185 days from the reference date. In
  particular the text \<^verbatim>\<open>Dec 28\<close> read on 2025-01-05 resolves to 2024-12-28.
\<close>

theorem guess_year_rule:
  assumes "valid_date today" and "mk_date (d_year today) mon dd = Some cand"
  shows "\<exists>y. guess_year mon dd today = Inr y
          \<and> (y = d_year today) = (\<bar>toordinal cand - toordinal today\<bar> \<le> 180)
          \<and> (y = d_year today + 1) = (toordinal cand - toordinal today < - 180)
          \<and> (y = d_year today - 1) = (toordinal cand - toordinal today > 180)
          \<and> (\<forall>x. mk_date y mon dd = Some x \<longrightarrow> \<bar>toordinal x - toordinal today\<bar> \<le> 185)
          \<and> parse_date_title (lit ''Dec 28'') \<lparr>d_year = 2025, d_month = 1, d_day = 5\<rparr>
              = Inr (Some \<lparr>d_year = 2024, d_month = 12, d_day = 28\<rparr>)"
proof -
  define Y where "Y = d_year today"
  define delta where "delta = toordinal cand - toordinal today"
  from mk_date_valid [OF assms(2)] have vc: "valid_date cand" "d_year cand = Y"
    by (simp_all add: Y_def)
  from same_year_distance [OF vc(1) assms(1)] vc(2) have d365: "\<bar>delta\<bar> \<le> 365"
    by (simp add: delta_def Y_def)
  define y where "y = (if delta < - 180 then Y + 1 else if delta > 180 then Y - 1 else Y)"
  have g: "guess_year mon dd today = Inr y"
    using assms(2) by (simp add: guess_year_def y_def delta_def Y_def Let_def)
  have far: "\<bar>toordinal x - toordinal today\<bar> \<le> 185" if x: "mk_date y mon dd = Some x" for x
  proof -
    consider "delta < - 180" | "delta > 180" | "\<bar>delta\<bar> \<le> 180" by linarith
    then show ?thesis
    proof cases
      case 1
      then have "y = Y + 1" by (simp add: y_def)
      with x assms(2) have "toordinal x - toordinal cand = 365 \<or> toordinal x - toordinal cand = 366"
        using next_year_shift [of Y mon dd cand x] by (simp add: Y_def)
      with 1 d365 show ?thesis by (auto simp: delta_def)
    next
      case 2
      then have "y = Y - 1" by (simp add: y_def)
      with x assms(2) have "toordinal cand - toordinal x = 365 \<or> toordinal cand - toordinal x = 366"
        using next_year_shift [of "Y - 1" mon dd x cand] by (simp add: Y_def)
      with 2 d365 show ?thesis by (auto simp: delta_def)
    next
      case 3
      then have "y = Y" by (auto simp: y_def)
      with x assms(2) have "x = cand" by (simp add: Y_def)
      with 3 show ?thesis by (simp add: delta_def)
    qed
  qed
  have "(y = Y) = (\<bar>delta\<bar> \<le> 180)" "(y = Y + 1) = (delta < - 180)" "(y = Y - 1) = (delta > 180)"
    by (auto simp: y_def)
  with g far parse_dec_28 show ?thesis
    unfolding Y_def delta_def by blast
qed

theorem guess_year_rule_witness:
  "valid_date \<lparr>d_year = 2025, d_month = 1, d_day = 5\<rparr>
   \<and> mk_date 2025 12 28 = Some \<lparr>d_year = 2025, d_month = 12, d_day = 28\<rparr>
   \<and> guess_year 12 28 \<lparr>d_year = 2025, d_month = 1, d_day = 5\<rparr> = Inr 2024
   \<and> toordinal \<lparr>d_year = 2025, d_month = 12, d_day = 28\<rparr>
        - toordinal \<lparr>d_year = 2025, d_month = 1, d_day = 5\<rparr> = 357
   \<and> \<bar>toordinal \<lparr>d_year = 2024, d_month = 12, d_day = 28\<rparr>
        - toordinal \<lparr>d_year = 2025, d_month = 1, d_day = 5\<rparr>\<bar> \<le> 185"
proof -
  have v: "valid_date \<lparr>d_year = 2025, d_month = 1, d_day = 5\<rparr>"
    by (simp add: valid_date_def date_eval)
  have c: "mk_date (d_year \<lparr>d_year = 2025, d_month = 1, d_day = 5\<rparr>) 12 28
      = Some \<lparr>d_year = 2025, d_month = 12, d_day = 28\<rparr>"
    by (simp add: date_eval)
  have g: "guess_year 12 28 \<lparr>d_year = 2025, d_month = 1, d_day = 5\<rparr> = Inr 2024"
    by (simp add: date_eval)
  have m: "mk_date 2024 12 28 = Some \<lparr>d_year = 2024, d_month = 12, d_day = 28\<rparr>"
    by (simp add: date_eval)
  have d: "toordinal \<lparr>d_year = 2025, d_month = 12, d_day = 28\<rparr>
        - toordinal \<lparr>d_year = 2025, d_month = 1, d_day = 5\<rparr> = 357"
    by (simp add: date_eval)
  from guess_year_rule [OF v c] g m
  have "\<bar>toordinal \<lparr>d_year = 2024, d_month = 12, d_day = 28\<rparr>
        - toordinal \<lparr>d_year = 2025, d_month = 1, d_day = 5\<rparr>\<bar> \<le> 185"
    by auto
  with v c g d show ?thesis by simp
qed

text \<open>The claim as stated fails: on 2025-07-01 the text \<^verbatim>\<open>Jan 1\<close> is given the year 2026,
  184 days away, although none of the three years puts the date within 180 days and the
  reference year is the nearest at 181 days.\<close>

theorem guess_year_counterexample:
  "guess_year 1 1 \<lparr>d_year = 2025, d_month = 7, d_day = 1\<rparr> = Inr 2026
   \<and> \<bar>toordinal \<lparr>d_year = 2026, d_month = 1, d_day = 1\<rparr>
        - toordinal \<lparr>d_year = 2025, d_month = 7, d_day = 1\<rparr>\<bar> = 184
   \<and> \<bar>toordinal \<lparr>d_year = 2025, d_month = 1, d_day = 1\<rparr>
        - toordinal \<lparr>d_year = 2025, d_month = 7, d_day = 1\<rparr>\<bar> = 181
   \<and> \<bar>toordinal \<lparr>d_year = 2024, d_month = 1, d_day = 1\<rparr>
        - toordinal \<lparr>d_year = 2025, d_month = 7, d_day = 1\<rparr>\<bar> = 547"
  by (simp add: date_eval)

section \<open>The time zone of a parsed time\<close>

lemma char_before_Cons: "char_before (c # cs) (Suc j) = (if j = 0 then Some c else char_before cs j)"
  by (cases j) (simp_all add: char_before_def)

lemma re_search_Some:
  "re_search m prev i s = Some (k, r) \<Longrightarrow>
     \<exists>j \<le> length s. k = i + j
        \<and> m (if j = 0 then prev else char_before s j) (drop j s) = Some r
        \<and> (\<forall>j' < j. m (if j' = 0 then prev else char_before s j') (drop j' s) = None)"
proof (induction s arbitrary: prev i)
  case Nil
  then show ?case by (auto split: option.splits)
next
  case (Cons c cs)
  show ?case
  proof (cases "m prev (c # cs)")
    case (Some r')
    with Cons.prems have "k = i" "r' = r" by simp_all
    with Some show ?thesis by (intro exI [of _ 0]) simp
  next
    case None
    with Cons.prems have "re_search m (Some c) (Suc i) cs = Some (k, r)" by simp
    from Cons.IH [OF this] obtain j where j: "j \<le> length cs" "k = Suc i + j"
      "m (if j = 0 then Some c else char_before cs j) (drop j cs) = Some r"
      "\<forall>j' < j. m (if j' = 0 then Some c else char_before cs j') (drop j' cs) = None"
      by blast
    have "\<forall>j' < Suc j. m (if j' = 0 then prev else char_before (c # cs) j') (drop j' (c # cs)) = None"
    proof (intro allI impI)
      fix j' assume lt: "j' < Suc j"
      show "m (if j' = 0 then prev else char_before (c # cs) j') (drop j' (c # cs)) = None"
      proof (cases j')
        case 0
        with None show ?thesis by simp
      next
        case (Suc n)
        with lt j(4) show ?thesis by (simp add: char_before_Cons)
      qed
    qed
    with j show ?thesis
      by (intro exI [of _ "Suc j"]) (simp add: char_before_Cons)
  qed
qed

lemma re_search_None:
  "re_search m prev i s = None \<Longrightarrow> j \<le> length s \<Longrightarrow>
     m (if j = 0 then prev else char_before s j) (drop j s) = None"
proof (induction s arbitrary: prev i j)
  case Nil
  then show ?case by (auto split: option.splits)
next
  case (Cons c cs)
  from Cons.prems(1) have n: "m prev (c # cs) = None" and r: "re_search m (Some c) (Suc i) cs = None"
    by (auto split: option.splits)
  show ?case
  proof (cases j)
    case 0
    with n show ?thesis by simp
  next
    case (Suc n)
    with Cons.prems(2) have "n \<le> length cs" by simp
    from Cons.IH [OF r this] Suc show ?thesis by (simp add: char_before_Cons)
  qed
qed

lemma hd_opt_drop: "hd_opt (drop n w) = char_at w n"
proof (cases "n < length w")
  case True
  then have "drop n w = w ! n # drop (Suc n) w" by (simp add: Cons_nth_drop_Suc)
  with True show ?thesis by (simp add: hd_opt_def char_at_def)
next
  case False
  then show ?thesis by (simp add: hd_opt_def char_at_def)
qed

lemma upper_of_lower:
  "lower_cp c = l \<Longrightarrow> 97 \<le> l \<Longrightarrow> l \<le> 122 \<Longrightarrow> upper_cp c = l - 32 \<and> is_word c"
  by (auto simp: lower_cp_def upper_cp_def is_upper_ascii_def is_lower_ascii_def is_word_def
      is_alpha_ascii_def split: if_splits)

lemma lower_of_upper:
  "upper_cp c = u \<Longrightarrow> 65 \<le> u \<Longrightarrow> u \<le> 90 \<Longrightarrow> lower_cp c = u + 32 \<and> is_word c"
  by (auto simp: lower_cp_def upper_cp_def is_upper_ascii_def is_lower_ascii_def is_word_def
      is_alpha_ascii_def split: if_splits)

lemma tz_keys:
  "fst ` set TZ_ABBR_MAP =
     {[69, 84], [69, 83, 84], [69, 68, 84], [67, 84], [67, 83, 84], [67, 68, 84],
      [77, 84], [77, 83, 84], [77, 68, 84], [80, 84], [80, 83, 84], [80, 68, 84]}"
  by (simp add: TZ_ABBR_MAP_def lit_def)


lemma py_upper_keys:
  "py_upper abbr \<in> fst ` set TZ_ABBR_MAP \<longleftrightarrow>
     (\<exists>c1 c2. abbr = [c1, c2] \<and> lower_cp c1 \<in> set (lit ''ecmp'') \<and> lower_cp c2 = 116)
     \<or> (\<exists>c1 c2 c3. abbr = [c1, c2, c3] \<and> lower_cp c1 \<in> set (lit ''ecmp'')
           \<and> lower_cp c2 \<in> set (lit ''sd'') \<and> lower_cp c3 = 116)"
  (is "?L = ?R")
proof
  assume ?L
  then consider c1 c2 where "abbr = [c1, c2]" "upper_cp c1 \<in> {69, 67, 77, 80}" "upper_cp c2 = 84"
    | c1 c2 c3 where "abbr = [c1, c2, c3]" "upper_cp c1 \<in> {69, 67, 77, 80}"
        "upper_cp c2 \<in> {83, 68}" "upper_cp c3 = 84"
    unfolding tz_keys py_upper_def by (auto simp: map_eq_Cons_conv)
  then show ?R
  proof cases
    case 1
    from 1(2) have "lower_cp c1 \<in> {101, 99, 109, 112}"
      using lower_of_upper [of c1] by auto
    moreover from 1(3) have "lower_cp c2 = 116" using lower_of_upper [of c2 84] by simp
    ultimately show ?thesis using 1(1) by (auto simp: lit_def)
  next
    case 2
    from 2(2) have "lower_cp c1 \<in> {101, 99, 109, 112}"
      using lower_of_upper [of c1] by auto
    moreover from 2(3) have "lower_cp c2 \<in> {115, 100}" using lower_of_upper [of c2] by auto
    moreover from 2(4) have "lower_cp c3 = 116" using lower_of_upper [of c3 84] by simp
    ultimately show ?thesis using 2(1) by (auto simp: lit_def)
  qed
next
  assume ?R
  then show ?L
  proof (elim disjE exE conjE)
    fix c1 c2
    assume a: "abbr = [c1, c2]" "lower_cp c1 \<in> set (lit ''ecmp'')" "lower_cp c2 = 116"
    from a(2) have "upper_cp c1 \<in> {69, 67, 77, 80}"
      using upper_of_lower [of c1] by (auto simp: lit_def)
    moreover from a(3) have "upper_cp c2 = 84" using upper_of_lower [of c2 116] by simp
    ultimately show ?thesis unfolding tz_keys py_upper_def a(1) by auto
  next
    fix c1 c2 c3
    assume a: "abbr = [c1, c2, c3]" "lower_cp c1 \<in> set (lit ''ecmp'')"
      "lower_cp c2 \<in> set (lit ''sd'')" "lower_cp c3 = 116"
    from a(2) have "upper_cp c1 \<in> {69, 67, 77, 80}"
      using upper_of_lower [of c1] by (auto simp: lit_def)
    moreover from a(3) have "upper_cp c2 \<in> {83, 68}"
      using upper_of_lower [of c2] by (auto simp: lit_def)
    moreover from a(4) have "upper_cp c3 = 84" using upper_of_lower [of c3 116] by simp
    ultimately show ?thesis unfolding tz_keys py_upper_def a(1) by auto
  qed
qed


lemma ecmp_word: "lower_cp c \<in> set (lit ''ecmp'') \<Longrightarrow> is_word c"
  using upper_of_lower [of c] by (auto simp: lit_def)

lemma sd_not_t: "lower_cp c \<in> set (lit ''sd'') \<Longrightarrow> lower_cp c \<noteq> 116"
  by (auto simp: lit_def)

lemma take_eq_2: "take 2 s = [a, b] \<longleftrightarrow> (\<exists>r. s = a # b # r)"
  by (cases s; cases "tl s") (auto simp: numeral_2_eq_2)

lemma take_eq_3: "take 3 s = [a, b, c] \<longleftrightarrow> (\<exists>r. s = a # b # c # r)"
  by (cases s; cases "tl s"; cases "tl (tl s)") (auto simp: numeral_3_eq_3)

lemma tz_match_iff:
  "tz_match prev s = Some abbr \<longleftrightarrow>
     \<not> word_opt prev \<and> length abbr \<le> length s \<and> take (length abbr) s = abbr
     \<and> py_upper abbr \<in> fst ` set TZ_ABBR_MAP
     \<and> \<not> word_opt (hd_opt (drop (length abbr) s))"
  (is "?L = ?R")
proof
  assume L: ?L
  then obtain c1 c2 r2 where s: "s = c1 # c2 # r2"
    by (cases s; cases "tl s") (auto simp: tz_match_def split: if_splits)
  from L s have e: "lower_cp c1 \<in> set (lit ''ecmp'')" and b: "boundary prev s"
    by (auto simp: tz_match_def split: if_splits)
  from e have "is_word c1" by (rule ecmp_word)
  with b s have p: "\<not> word_opt prev" by (simp add: boundary_def word_opt_def hd_opt_def)
  show ?R
  proof (cases "lower_cp c2 \<in> set (lit ''sd'')")
    case True
    with L s e b obtain c3 r3 where r: "r2 = c3 # r3" "lower_cp c3 = 116"
        "\<not> word_opt (hd_opt r3)" "abbr = [c1, c2, c3]"
      by (cases r2) (auto simp: tz_match_def split: if_splits)
    with True e have "py_upper abbr \<in> fst ` set TZ_ABBR_MAP"
      unfolding py_upper_keys by blast
    with p s r show ?thesis by simp
  next
    case False
    with L s e b have r: "lower_cp c2 = 116" "\<not> word_opt (hd_opt r2)" "abbr = [c1, c2]"
      by (auto simp: tz_match_def split: if_splits)
    with e have "py_upper abbr \<in> fst ` set TZ_ABBR_MAP"
      unfolding py_upper_keys by blast
    with p s r show ?thesis by simp
  qed
next
  assume R: ?R
  then have k: "py_upper abbr \<in> fst ` set TZ_ABBR_MAP" by simp
  from k [unfolded py_upper_keys] show ?L
  proof (elim disjE exE conjE)
    fix c1 c2
    assume a: "abbr = [c1, c2]" "lower_cp c1 \<in> set (lit ''ecmp'')" "lower_cp c2 = 116"
    from R a(1) have "take 2 s = [c1, c2]" by (simp add: numeral_2_eq_2)
    then obtain r where s: "s = c1 # c2 # r" unfolding take_eq_2 by blast
    from a(3) have nsd: "lower_cp c2 \<notin> set (lit ''sd'')" by (auto simp: lit_def)
    from R a(1) s have t: "\<not> word_opt (hd_opt r)" "\<not> word_opt prev" by simp_all
    from ecmp_word [OF a(2)] t(2) s have "boundary prev s"
      by (simp add: boundary_def word_opt_def hd_opt_def)
    with s a nsd t show ?thesis by (simp add: tz_match_def)
  next
    fix c1 c2 c3
    assume a: "abbr = [c1, c2, c3]" "lower_cp c1 \<in> set (lit ''ecmp'')"
      "lower_cp c2 \<in> set (lit ''sd'')" "lower_cp c3 = 116"
    from R a(1) have "take 3 s = [c1, c2, c3]" by (simp add: numeral_3_eq_3)
    then obtain r where s: "s = c1 # c2 # c3 # r" unfolding take_eq_3 by blast
    from R a(1) s have t: "\<not> word_opt (hd_opt r)" "\<not> word_opt prev" by simp_all
    from ecmp_word [OF a(2)] t(2) s have "boundary prev s"
      by (simp add: boundary_def word_opt_def hd_opt_def)
    with s a t show ?thesis by (simp add: tz_match_def)
  qed
qed

lemma tz_match_token:
  "j \<le> length w \<Longrightarrow>
     tz_match (if j = 0 then None else char_before w j) (drop j w) = Some abbr \<longleftrightarrow> tz_token_at w j abbr"
proof -
  assume "j \<le> length w"
  have p: "(if j = 0 then None else char_before w j) = char_before w j"
    by (simp add: char_before_def)
  have l: "length abbr \<le> length (drop j w) \<longleftrightarrow> j + length abbr \<le> length w"
    using \<open>j \<le> length w\<close> by auto
  show ?thesis
    unfolding p tz_match_iff tz_token_at_def l
    by (auto simp: hd_opt_drop add.commute)
qed

lemma tz_token_bound: "tz_token_at w i abbr \<Longrightarrow> i \<le> length w"
  by (simp add: tz_token_at_def)


lemmas regex_eval = Let_def boundary_def word_opt_def hd_opt_def is_word_def is_alpha_ascii_def

lemma parse_time_start_pt:
  "parse_time_and_tz (lit ''Start 7:00 PM PT'') (lit ''America/New_York'')
     = (Some 19, Some 0, lit ''America/Los_Angeles'')"
proof -
  have 1: "re_search time_match None 0 (lit ''Start 7:00 PM PT'') = Some (6, lit ''7'', lit ''00'', lit ''PM'')"
    by (simp add: time_match_def text_eval regex_eval)
  have 2: "tz_window (lit ''Start 7:00 PM PT'') 6 = lit ''Start 7:00 PM PT''"
    by (simp add: tz_window_def lit_def)
  have 3: "re_search tz_match None 0 (lit ''Start 7:00 PM PT'') = Some (14, lit ''PT'')"
    by (simp add: tz_match_def text_eval regex_eval)
  have 4: "py_upper (lit ''PM'') = lit ''PM''" "py_upper (lit ''PT'') = lit ''PT''"
    by (simp_all add: py_upper_def upper_cp_def text_eval)
  have 5: "map_of TZ_ABBR_MAP (lit ''PT'') = Some (lit ''America/Los_Angeles'')"
    by (simp add: TZ_ABBR_MAP_def)
  have 6: "int_of_digits (lit ''7'') = 7" "int_of_digits (lit ''00'') = 0"
    by (simp_all add: int_of_digits_def lit_def)
  show ?thesis
    by (simp add: parse_time_and_tz_def 1 2 3 4 5 6)
qed



section \<open>Idempotence of the name normalizer\<close>

subsection \<open>Stripping\<close>

lemma py_strip_alt: "py_strip s = rstrip (lstrip s)"
  by (simp add: py_strip_def lstrip_def rstrip_def)

lemma rstrip_append_space: "list_all py_isspace w \<Longrightarrow> rstrip (s @ w) = rstrip s"
  by (induction w rule: rev_induct) (simp_all add: rstrip_def)

lemma rstrip_Cons: "rstrip (c # s) = (if rstrip s = [] \<and> py_isspace c then [] else c # rstrip s)"
  by (simp add: rstrip_def dropWhile_append)

lemma rstrip_Nil_iff: "rstrip s = [] \<longleftrightarrow> list_all py_isspace s"
  by (simp add: rstrip_def dropWhile_eq_Nil_conv list_all_iff)

lemma lstrip_rstrip: "lstrip (rstrip s) = rstrip (lstrip s)"
proof (induction s)
  case Nil
  then show ?case by (simp add: lstrip_def rstrip_def)
next
  case (Cons c s)
  show ?case
  proof (cases "py_isspace c")
    case True
    then have r: "rstrip (lstrip (c # s)) = rstrip (lstrip s)" by (simp add: lstrip_def)
    show ?thesis
    proof (cases "rstrip s = []")
      case e: True
      with True have "lstrip (rstrip (c # s)) = []" by (simp add: rstrip_Cons lstrip_def)
      moreover from e Cons have "rstrip (lstrip s) = []" by (simp add: lstrip_def)
      ultimately show ?thesis using r by simp
    next
      case False
      with True have "lstrip (rstrip (c # s)) = lstrip (rstrip s)"
        by (simp add: rstrip_Cons lstrip_def)
      with Cons r show ?thesis by simp
    qed
  next
    case False
    then show ?thesis by (simp add: rstrip_Cons lstrip_def)
  qed
qed

lemma lstrip_idem [simp]: "lstrip (lstrip s) = lstrip s"
  by (simp add: lstrip_def dropWhile_idem)

lemma rstrip_idem [simp]: "rstrip (rstrip s) = rstrip s"
  by (simp add: rstrip_def dropWhile_idem)

lemma strip_lstrip: "py_strip (lstrip s) = py_strip s"
  by (simp add: py_strip_alt)

lemma strip_rstrip: "py_strip (rstrip s) = py_strip s"
  by (simp add: py_strip_alt lstrip_rstrip)

lemma strip_idem [simp]: "py_strip (py_strip s) = py_strip s"
  by (simp add: py_strip_alt lstrip_rstrip)

lemma strip_append_space: "list_all py_isspace w \<Longrightarrow> py_strip (s @ w) = py_strip s"
proof -
  assume w: "list_all py_isspace w"
  have "py_strip (s @ w) = lstrip (rstrip (s @ w))" by (simp add: py_strip_alt lstrip_rstrip)
  also have "\<dots> = lstrip (rstrip s)" using w by (simp add: rstrip_append_space)
  finally show ?thesis by (simp add: py_strip_alt lstrip_rstrip)
qed

lemma strip_space_Cons: "py_isspace c \<Longrightarrow> py_strip (c # s) = py_strip s"
  by (simp add: py_strip_def)

lemma set_strip: "set (py_strip s) \<subseteq> set s"
proof -
  have "set (py_strip s) \<subseteq> set (dropWhile py_isspace s)"
    unfolding py_strip_def set_rev by (metis set_dropWhileD set_rev subsetI)
  also have "\<dots> \<subseteq> set s" by (auto dest: set_dropWhileD)
  finally show ?thesis .
qed

lemma strip_mid:
  "\<not> py_isspace c \<Longrightarrow> py_strip (p @ c # q) = lstrip p @ c # rstrip q"
proof -
  assume c: "\<not> py_isspace c"
  have l: "lstrip (p @ c # q) = lstrip p @ c # q"
    using c by (induction p) (simp_all add: lstrip_def)
  have r: "rstrip (u @ c # q) = u @ c # rstrip q" for u
    using c by (induction u) (simp_all add: rstrip_Cons)
  show ?thesis by (simp add: py_strip_alt l r)
qed

lemma length_strip_le: "length (py_strip s) \<le> length s"
proof -
  have "length (py_strip s) = length (dropWhile py_isspace (rev (dropWhile py_isspace s)))"
    by (simp add: py_strip_def)
  also have "\<dots> \<le> length (rev (dropWhile py_isspace s))" by (rule length_dropWhile_le)
  also have "\<dots> = length (dropWhile py_isspace s)" by simp
  also have "\<dots> \<le> length s" by (rule length_dropWhile_le)
  finally show ?thesis .
qed

lemma strip_fixed_iff: "py_strip s = s \<longleftrightarrow> (s = [] \<or> (\<not> py_isspace (hd s) \<and> \<not> py_isspace (last s)))"
proof (cases s)
  case Nil
  then show ?thesis by (simp add: py_strip_def)
next
  case (Cons c cs)
  show ?thesis
  proof (cases "py_isspace c")
    case True
    have "length (py_strip (c # cs)) \<le> length cs"
      using True length_strip_le [of cs] by (simp add: strip_space_Cons)
    then have "py_strip (c # cs) \<noteq> c # cs" by auto
    with True Cons show ?thesis by simp
  next
    case False
    then have l: "lstrip s = s" using Cons by (simp add: lstrip_def)
    have "rstrip s = s \<longleftrightarrow> \<not> py_isspace (last s)"
    proof (cases "py_isspace (last s)")
      case True
      with Cons have "dropWhile py_isspace (rev s) \<noteq> rev s"
        by (metis dropWhile_eq_self_iff hd_rev rev_is_Nil_conv list.distinct(1))
      then have "rstrip s \<noteq> s" unfolding rstrip_def by (metis rev_rev_ident)
      with True show ?thesis by simp
    next
      case nl: False
      from Cons have "hd (rev s) = last s" by (simp only: hd_rev)
      with nl have "dropWhile py_isspace (rev s) = rev s"
        by (simp only: dropWhile_eq_self_iff) simp
      with nl show ?thesis by (simp add: rstrip_def)
    qed
    with False Cons l show ?thesis by (simp add: py_strip_alt)
  qed
qed

lemma strip_is_fixed: "py_strip (py_strip s) = py_strip s"
  by simp

subsection \<open>Letter case does not matter to the recognisers\<close>

lemma lower_cp_cases: "lower_cp c = c \<or> (is_upper_ascii c \<and> lower_cp c = c + 32)"
  by (simp add: lower_cp_def)

lemma space_lower [simp]: "py_isspace (lower_cp c) = py_isspace c"
  by (auto simp: lower_cp_def is_upper_ascii_def py_isspace_def)

lemma word_lower [simp]: "is_word (lower_cp c) = is_word c"
  by (auto simp: lower_cp_def is_upper_ascii_def is_word_def is_alpha_ascii_def is_lower_ascii_def
      is_digit_ascii_def)

lemma alpha_lower [simp]: "is_alpha_ascii (lower_cp c) = is_alpha_ascii c"
  by (auto simp: lower_cp_def is_upper_ascii_def is_alpha_ascii_def is_lower_ascii_def)

lemma at_lower [simp]: "(lower_cp c = 64) = (c = 64)"
  by (auto simp: lower_cp_def is_upper_ascii_def)

lemma linebreak_lower [simp]: "is_linebreak (lower_cp c) = is_linebreak c"
  by (auto simp: lower_cp_def is_upper_ascii_def is_linebreak_def)

lemma space_lower_comp [simp]: "py_isspace \<circ> lower_cp = py_isspace"
  by (rule ext) simp

lemma strip_map_lower: "py_strip (map lower_cp s) = map lower_cp (py_strip s)"
  by (simp add: py_strip_def dropWhile_map rev_map)

lemma same_lower_strip_length:
  assumes "map lower_cp s = map lower_cp t"
  shows "length (py_strip s) = length (py_strip t)"
proof -
  have "length (py_strip s) = length (map lower_cp (py_strip s))" by simp
  also have "\<dots> = length (py_strip (map lower_cp t))" by (simp add: strip_map_lower [symmetric] assms)
  also have "\<dots> = length (py_strip t)" by (simp add: strip_map_lower)
  finally show ?thesis .
qed

lemma strip_length_fixed: "length (py_strip s) = length s \<Longrightarrow> py_strip s = s"
proof -
  assume l: "length (py_strip s) = length s"
  have a: "length (dropWhile py_isspace (rev (dropWhile py_isspace s))) \<le> length (dropWhile py_isspace s)"
    using length_dropWhile_le [of py_isspace "rev (dropWhile py_isspace s)"] by simp
  have b: "length (dropWhile py_isspace s) \<le> length s" by (rule length_dropWhile_le)
  from l a b have e1: "length (dropWhile py_isspace s) = length s"
    by (simp add: py_strip_def)
  then have d1: "dropWhile py_isspace s = s"
    by (metis append_eq_append_conv append_Nil takeWhile_dropWhile_id length_0_conv
        add_cancel_right_left length_append)
  from l d1 have "length (dropWhile py_isspace (rev s)) = length (rev s)"
    by (simp add: py_strip_def)
  then have "dropWhile py_isspace (rev s) = rev s"
    by (metis append_eq_append_conv append_Nil takeWhile_dropWhile_id length_0_conv
        add_cancel_right_left length_append)
  with d1 show ?thesis by (simp add: py_strip_def)
qed

subsection \<open>Title case on ASCII text\<close>

lemma ascii_text_iff: "ascii_text s \<longleftrightarrow> (\<forall>c\<in>set s. c < 128)"
  by (simp add: ascii_text_def list_all_iff)

lemma title_cp_ascii:
  "c < 128 \<Longrightarrow> \<exists>d. title_cp c = [d] \<and> d < 128 \<and> lower_cp d = lower_cp c \<and> is_cased d = is_cased c
      \<and> title_cp d = [d]"
  by (auto simp: title_cp_def lower_cp_def is_cased_def is_alpha_ascii_def is_lower_ascii_def
      is_upper_ascii_def)

lemma lower_cp_ascii:
  "c < 128 \<Longrightarrow> lower_cp c < 128 \<and> is_cased (lower_cp c) = is_cased c"
  by (auto simp: lower_cp_def is_cased_def is_alpha_ascii_def is_lower_ascii_def is_upper_ascii_def)

lemma title_aux_ascii:
  "ascii_text s \<Longrightarrow>
     length (title_aux f s) = length s \<and> map lower_cp (title_aux f s) = map lower_cp s
     \<and> ascii_text (title_aux f s) \<and> title_aux f (title_aux f s) = title_aux f s"
proof (induction s arbitrary: f)
  case Nil
  then show ?case by (simp add: ascii_text_def)
next
  case (Cons c s)
  then have c: "c < 128" and s: "ascii_text s" by (simp_all add: ascii_text_def)
  from title_cp_ascii [OF c] obtain d where d: "title_cp c = [d]" "d < 128"
      "lower_cp d = lower_cp c" "is_cased d = is_cased c" "title_cp d = [d]" by blast
  from Cons.IH [OF s, of "is_cased c"] lower_cp_ascii [OF c] d
  show ?case by (cases f) (simp_all add: ascii_text_def)
qed

lemma title_length: "ascii_text s \<Longrightarrow> length (py_title s) = length s"
  by (simp add: py_title_def title_aux_ascii)

lemma title_lower: "ascii_text s \<Longrightarrow> map lower_cp (py_title s) = map lower_cp s"
  by (simp add: py_title_def title_aux_ascii)

lemma title_ascii: "ascii_text s \<Longrightarrow> ascii_text (py_title s)"
  by (simp add: py_title_def title_aux_ascii)

lemma title_idem: "ascii_text s \<Longrightarrow> py_title (py_title s) = py_title s"
  by (simp add: py_title_def title_aux_ascii)

lemma title_stripped:
  assumes "ascii_text s" "py_strip s = s"
  shows "py_strip (py_title s) = py_title s"
proof -
  from same_lower_strip_length [OF title_lower [OF assms(1)]] assms(2)
  have "length (py_strip (py_title s)) = length (py_title s)"
    by (simp add: title_length [OF assms(1)])
  then show ?thesis by (rule strip_length_fixed)
qed

lemma title_no_at: "ascii_text s \<Longrightarrow> 64 \<notin> set s \<Longrightarrow> 64 \<notin> set (py_title s)"
proof -
  assume a: "ascii_text s" and n: "64 \<notin> set s"
  have "64 \<in> set t \<longleftrightarrow> 64 \<in> set (map lower_cp t)" for t by (auto simp: image_iff)
  with title_lower [OF a] n show ?thesis by metis
qed

lemma title_no_linebreak:
  "ascii_text s \<Longrightarrow> list_all (\<lambda>c. \<not> is_linebreak c) s \<Longrightarrow> list_all (\<lambda>c. \<not> is_linebreak c) (py_title s)"
proof -
  assume a: "ascii_text s" and n: "list_all (\<lambda>c. \<not> is_linebreak c) s"
  have "list_all (\<lambda>c. \<not> is_linebreak c) t \<longleftrightarrow> list_all (\<lambda>c. \<not> is_linebreak c) (map lower_cp t)" for t
    by (simp add: list_all_iff)
  with title_lower [OF a] n show ?thesis by metis
qed

lemma title_aux_append:
  "title_aux f (u @ v) = title_aux f u @ title_aux (if u = [] then f else is_cased (last u)) v"
  by (induction u arbitrary: f) simp_all

subsection \<open>Month tokens\<close>

lemma alpha_word: "is_alpha_ascii c \<Longrightarrow> is_word c"
  by (simp add: is_word_def)

lemma space_not_word: "py_isspace c \<Longrightarrow> \<not> is_word c"
  by (auto simp: py_isspace_def is_word_def is_alpha_ascii_def is_lower_ascii_def is_upper_ascii_def
      is_digit_ascii_def)

lemma month_names_lower: "n \<in> set month_names \<Longrightarrow> list_all is_lower_ascii n \<and> n \<noteq> []"
  by (auto simp: month_names_def lit_def is_lower_ascii_def)

lemma lower_is_lower_alpha: "is_lower_ascii (lower_cp c) \<Longrightarrow> is_alpha_ascii c"
  by (auto simp: lower_cp_def is_alpha_ascii_def is_lower_ascii_def is_upper_ascii_def split: if_splits)

lemma ci_prefix_alpha:
  assumes "n \<in> set month_names" "ci_prefix n s"
  shows "list_all is_alpha_ascii (take (length n) s)" and "s \<noteq> []" and "is_alpha_ascii (hd s)"
proof -
  from assms(2) have m: "map lower_cp (take (length n) s) = n" and l: "length n \<le> length s"
    by (simp_all add: ci_prefix_def)
  from month_names_lower [OF assms(1)] have ln: "list_all is_lower_ascii n" "n \<noteq> []" by simp_all
  from ln(1) m have "list_all (\<lambda>c. is_lower_ascii (lower_cp c)) (take (length n) s)"
    by (metis list_all_iff imageI set_map)
  then show a: "list_all is_alpha_ascii (take (length n) s)"
    by (auto simp: list_all_iff dest: lower_is_lower_alpha)
  from ln(2) l show ne: "s \<noteq> []" by auto
  from ln(2) ne have "hd s \<in> set (take (length n) s)"
    by (cases s; cases n) auto
  with a show "is_alpha_ascii (hd s)" by (simp add: list_all_iff)
qed

lemma ci_prefix_dropWhile:
  assumes "n \<in> set month_names" "ci_prefix n s"
  shows "dropWhile is_alpha_ascii (drop (length n) s) = dropWhile is_alpha_ascii s"
proof -
  from ci_prefix_alpha(1) [OF assms] have "\<And>x. x \<in> set (take (length n) s) \<Longrightarrow> is_alpha_ascii x"
    by (simp add: list_all_iff)
  then have "dropWhile is_alpha_ascii (take (length n) s @ drop (length n) s)
      = dropWhile is_alpha_ascii (drop (length n) s)"
    by (rule dropWhile_append2)
  then show ?thesis by simp
qed

lemma month_token_iff:
  "month_token s = (starts_month s \<and> \<not> word_opt (hd_opt (dropWhile is_alpha_ascii s)))"
proof (cases "find (\<lambda>n. ci_prefix n s) month_names")
  case None
  then have "\<not> starts_month s" by (auto simp: find_None_iff starts_month_def)
  with None show ?thesis by (simp add: month_token_def month_name_rest_def)
next
  case (Some n)
  then have n: "n \<in> set month_names" "ci_prefix n s"
    by (auto simp: find_Some_iff)
  then have sm: "starts_month s" by (auto simp: starts_month_def)
  define r1 where "r1 = dropWhile is_alpha_ascii s"
  have "(r1 \<noteq> [] \<and> hd r1 = 46 \<and> word_opt (hd_opt (tl r1))) \<Longrightarrow> \<not> word_opt (hd_opt r1)"
    by (cases r1) (auto simp: hd_opt_def word_opt_def is_word_def is_alpha_ascii_def
        is_lower_ascii_def is_upper_ascii_def is_digit_ascii_def)
  then have "((r1 \<noteq> [] \<and> hd r1 = 46 \<and> word_opt (hd_opt (tl r1))) \<or> \<not> word_opt (hd_opt r1))
      = (\<not> word_opt (hd_opt r1))" by blast
  with Some sm show ?thesis
    by (simp add: month_token_def month_name_rest_def ci_prefix_dropWhile [OF n] r1_def Let_def)
qed

lemma starts_month_first: "starts_month s \<Longrightarrow> s \<noteq> [] \<and> is_word (hd s)"
  by (auto simp: starts_month_def dest: ci_prefix_alpha alpha_word)

lemma starts_month_append: "starts_month t \<Longrightarrow> starts_month (t @ u)"
proof -
  assume "starts_month t"
  then obtain n where n: "n \<in> set month_names" "length n \<le> length t"
      "map lower_cp (take (length n) t) = n"
    by (auto simp: starts_month_def ci_prefix_def)
  then have "ci_prefix n (t @ u)" by (simp add: ci_prefix_def)
  with n(1) show ?thesis unfolding starts_month_def by blast
qed

lemma month_token_extend:
  assumes "month_token t" "t \<noteq> []" "\<not> is_word (last t)"
  shows "month_token (t @ u)"
proof -
  from assms(2,3) have "last t \<in> set t" "\<not> is_alpha_ascii (last t)"
    by (auto dest: alpha_word)
  then have "dropWhile is_alpha_ascii (t @ u) = dropWhile is_alpha_ascii t @ u"
    and "dropWhile is_alpha_ascii t \<noteq> []"
    by (auto simp: dropWhile_append1 dropWhile_eq_Nil_conv)
  then have "hd_opt (dropWhile is_alpha_ascii (t @ u)) = hd_opt (dropWhile is_alpha_ascii t)"
    by (cases "dropWhile is_alpha_ascii t") (simp_all add: hd_opt_def)
  with assms(1) show ?thesis
    by (simp add: month_token_iff starts_month_append)
qed

lemma month_token_spaces:
  assumes "month_token t" "list_all py_isspace w"
  shows "month_token (t @ w)"
proof (cases "dropWhile is_alpha_ascii t = []")
  case True
  then have all: "\<And>x. x \<in> set t \<Longrightarrow> is_alpha_ascii x" by (simp add: dropWhile_eq_Nil_conv)
  have "dropWhile is_alpha_ascii (t @ w) = dropWhile is_alpha_ascii w"
    using all by (rule dropWhile_append2)
  moreover have "\<not> word_opt (hd_opt (dropWhile is_alpha_ascii w))"
  proof (cases w)
    case Nil
    then show ?thesis by (simp add: hd_opt_def word_opt_def)
  next
    case (Cons c cs)
    with assms(2) have "py_isspace c" by simp
    then have "\<not> is_word c" by (rule space_not_word)
    then have "\<not> is_alpha_ascii c" by (auto dest: alpha_word)
    with Cons \<open>\<not> is_word c\<close> show ?thesis by (simp add: hd_opt_def word_opt_def)
  qed
  ultimately show ?thesis using assms(1) by (simp add: month_token_iff starts_month_append)
next
  case False
  then obtain x where "x \<in> set t" "\<not> is_alpha_ascii x" by (auto simp: dropWhile_eq_Nil_conv)
  then have "dropWhile is_alpha_ascii (t @ w) = dropWhile is_alpha_ascii t @ w"
    by (simp add: dropWhile_append1)
  with False have "hd_opt (dropWhile is_alpha_ascii (t @ w)) = hd_opt (dropWhile is_alpha_ascii t)"
    by (cases "dropWhile is_alpha_ascii t") (simp_all add: hd_opt_def)
  with assms(1) show ?thesis by (simp add: month_token_iff starts_month_append)
qed

lemma boundary_Cons: "boundary prev (c # s) = (word_opt prev \<noteq> is_word c)"
  by (simp add: boundary_def hd_opt_def word_opt_def)

lemma no_month_prev: "word_opt p = word_opt q \<Longrightarrow> no_month p s = no_month q s"
  by (cases s) (simp_all add: boundary_def)

lemma no_month_fixed: "no_month prev s \<Longrightarrow> month_cut_aux prev s = s"
  by (induction s arbitrary: prev) auto

lemma month_cut_split:
  "10 \<notin> set cs \<Longrightarrow>
     \<exists>rest. cs = month_cut_aux (Some c) cs @ rest
        \<and> (rest = [] \<or> (word_opt (hd_opt rest) \<and> \<not> is_word (last (c # month_cut_aux (Some c) cs))))"
proof (induction cs arbitrary: c)
  case Nil
  then show ?case by simp
next
  case (Cons d ds)
  then have nl: "10 \<notin> set ds" "d \<noteq> 10" by auto
  show ?case
  proof (cases "boundary (Some c) (d # ds) \<and> month_token (d # ds)")
    case True
    have "last (d # ds) \<in> set (d # ds)" by (rule last_in_set) simp
    with nl have "last (d # ds) \<noteq> 10" by auto
    moreover from nl have "10 \<notin> set (butlast (d # ds))" by (auto dest: in_set_butlastD)
    ultimately have cut: "month_cut_aux (Some c) (d # ds) = []"
      using True by simp
    from True have "starts_month (d # ds)" by (simp add: month_token_iff)
    from starts_month_first [OF this] have w: "is_word d" by simp
    with True have "\<not> is_word c" by (simp add: boundary_Cons word_opt_def)
    with w cut show ?thesis by (simp add: hd_opt_def word_opt_def)
  next
    case False
    then have cut: "month_cut_aux (Some c) (d # ds) = d # month_cut_aux (Some d) ds" by auto
    from Cons.IH [OF nl(1), of d] obtain rest where
      "ds = month_cut_aux (Some d) ds @ rest"
      "rest = [] \<or> (word_opt (hd_opt rest) \<and> \<not> is_word (last (d # month_cut_aux (Some d) ds)))"
      by blast
    then show ?thesis unfolding cut by (intro exI [of _ rest]) auto
  qed
qed

lemma month_cut_token:
  assumes "month_token (c # month_cut_aux (Some c) cs)" "10 \<notin> set cs"
  shows "month_token (c # cs)"
proof -
  from month_cut_split [OF assms(2), of c] obtain rest where
    r: "cs = month_cut_aux (Some c) cs @ rest"
      "rest = [] \<or> (word_opt (hd_opt rest) \<and> \<not> is_word (last (c # month_cut_aux (Some c) cs)))"
    by blast
  show ?thesis
  proof (cases "rest = []")
    case True
    with r(1) assms(1) show ?thesis by simp
  next
    case False
    with r(2) have "\<not> is_word (last (c # month_cut_aux (Some c) cs))" by simp
    from month_token_extend [OF assms(1) _ this, of rest] r(1)
    show ?thesis by (metis append_Cons list.distinct(1))
  qed
qed

lemma month_cut_no_month: "10 \<notin> set s \<Longrightarrow> no_month prev (month_cut_aux prev s)"
proof (induction s arbitrary: prev)
  case Nil
  then show ?case by simp
next
  case (Cons c cs)
  then have nl: "10 \<notin> set cs" "c \<noteq> 10" by auto
  show ?case
  proof (cases "boundary prev (c # cs) \<and> month_token (c # cs)")
    case True
    have "last (c # cs) \<in> set (c # cs)" by (rule last_in_set) simp
    with nl have "last (c # cs) \<noteq> 10" by auto
    moreover from nl have "10 \<notin> set (butlast (c # cs))" by (auto dest: in_set_butlastD)
    ultimately have "month_cut_aux prev (c # cs) = []"
      using True by simp
    then show ?thesis by simp
  next
    case False
    then have cut: "month_cut_aux prev (c # cs) = c # month_cut_aux (Some c) cs" by auto
    have "\<not> (boundary prev (c # month_cut_aux (Some c) cs) \<and> month_token (c # month_cut_aux (Some c) cs))"
      using False month_cut_token [OF _ nl(1), of c] by (auto simp: boundary_Cons)
    with Cons.IH [OF nl(1), of "Some c"] show ?thesis unfolding cut by simp
  qed
qed

lemma no_month_lstrip: "\<not> word_opt prev \<Longrightarrow> no_month prev s \<Longrightarrow> no_month prev (lstrip s)"
proof (induction s)
  case Nil
  then show ?case by (simp add: lstrip_def)
next
  case (Cons c cs)
  show ?case
  proof (cases "py_isspace c")
    case True
    then have "word_opt (Some c) = word_opt prev"
      using Cons.prems(1) by (simp add: word_opt_def space_not_word)
    with Cons.prems(2) have "no_month prev cs" by (simp add: no_month_prev [of "Some c" prev])
    with Cons.IH Cons.prems(1) True show ?thesis by (simp add: lstrip_def)
  next
    case False
    with Cons.prems show ?thesis by (simp add: lstrip_def)
  qed
qed

lemma rstrip_decomp: "\<exists>w. s = rstrip s @ w \<and> list_all py_isspace w"
proof -
  have "rstrip s @ rev (takeWhile py_isspace (rev s))
      = rev (takeWhile py_isspace (rev s) @ dropWhile py_isspace (rev s))"
    by (simp only: rev_append rstrip_def)
  also have "\<dots> = rev (rev s)" by (simp only: takeWhile_dropWhile_id)
  finally have "s = rstrip s @ rev (takeWhile py_isspace (rev s))" by simp
  moreover have "list_all py_isspace (rev (takeWhile py_isspace (rev s)))"
    by (auto simp: list_all_iff dest: set_takeWhileD)
  ultimately show ?thesis by blast
qed

lemma no_month_rstrip: "no_month prev s \<Longrightarrow> no_month prev (rstrip s)"
proof (induction s arbitrary: prev)
  case Nil
  then show ?case by (simp add: rstrip_def)
next
  case (Cons c cs)
  show ?case
  proof (cases "rstrip cs = [] \<and> py_isspace c")
    case True
    then show ?thesis by (simp add: rstrip_Cons)
  next
    case False
    then have r: "rstrip (c # cs) = c # rstrip cs" by (auto simp: rstrip_Cons)
    from rstrip_decomp [of cs] obtain w where w: "cs = rstrip cs @ w" "list_all py_isspace w" by blast
    have "month_token (c # rstrip cs) \<Longrightarrow> month_token (c # cs)"
      using month_token_spaces [of "c # rstrip cs" w] w by (metis append_Cons)
    with Cons.prems have "\<not> (boundary prev (c # rstrip cs) \<and> month_token (c # rstrip cs))"
      by (auto simp: boundary_Cons)
    moreover from Cons.prems have "no_month (Some c) cs" by simp
    from Cons.IH [OF this] have "no_month (Some c) (rstrip cs)" .
    ultimately show ?thesis unfolding r by simp
  qed
qed

lemma no_month_strip: "no_month None s \<Longrightarrow> no_month None (py_strip s)"
  unfolding py_strip_alt
  by (intro no_month_rstrip no_month_lstrip) (simp_all add: word_opt_def)

subsection \<open>Month tokens do not depend on letter case\<close>

lemma hd_opt_map: "hd_opt (map f s) = map_option f (hd_opt s)"
  by (cases s) (simp_all add: hd_opt_def)

lemma word_opt_lower [simp]: "word_opt (map_option lower_cp p) = word_opt p"
  by (cases p) (simp_all add: word_opt_def)

lemma alpha_lower_comp [simp]: "is_alpha_ascii \<circ> lower_cp = is_alpha_ascii"
  by (rule ext) simp

lemma ci_prefix_lower [simp]: "ci_prefix n (map lower_cp s) = ci_prefix n s"
  by (simp add: ci_prefix_def take_map comp_def)

lemma month_token_lower [simp]: "month_token (map lower_cp s) = month_token s"
  by (simp add: month_token_iff starts_month_def dropWhile_map hd_opt_map)

lemma boundary_lower [simp]: "boundary (map_option lower_cp p) (map lower_cp s) = boundary p s"
  by (simp add: boundary_def hd_opt_map)

lemma no_month_lower: "no_month (map_option lower_cp p) (map lower_cp s) = no_month p s"
proof (induction s arbitrary: p)
  case Nil
  then show ?case by simp
next
  case (Cons c cs)
  have "boundary (map_option lower_cp p) (map lower_cp (c # cs)) = boundary p (c # cs)"
    by (rule boundary_lower)
  moreover have "month_token (map lower_cp (c # cs)) = month_token (c # cs)"
    by (rule month_token_lower)
  moreover have "no_month (map_option lower_cp (Some c)) (map lower_cp cs) = no_month (Some c) cs"
    by (rule Cons.IH)
  ultimately show ?case by simp
qed

lemma no_month_title: "ascii_text s \<Longrightarrow> no_month None s \<Longrightarrow> no_month None (py_title s)"
proof -
  assume a: "ascii_text s" and n: "no_month None s"
  have "no_month None (py_title s) = no_month (map_option lower_cp None) (map lower_cp (py_title s))"
    by (simp only: no_month_lower)
  also have "\<dots> = no_month (map_option lower_cp None) (map lower_cp s)"
    by (simp only: title_lower [OF a])
  also have "\<dots> = no_month None s" by (simp only: no_month_lower)
  finally show ?thesis using n by simp
qed

subsection \<open>Words, lines and joins\<close>

lemma lit_space: "lit '' '' = [32]"
  by (simp add: lit_def)

lemma split_aux_words:
  "\<forall>c\<in>set cur. \<not> py_isspace c \<Longrightarrow> is_words (split_ws_aux cur s)"
proof (induction cur s rule: split_ws_aux.induct)
  case (1 cur)
  then show ?case by (simp add: is_words_def)
next
  case (2 cur c cs)
  show ?case
  proof (cases "py_isspace c")
    case True
    have e: "is_words (split_ws_aux [] cs)" using "2.IH"(1,2) True
      by (cases "cur = []") simp_all
    show ?thesis
    proof (cases "cur = []")
      case c: True
      with True e show ?thesis by simp
    next
      case False
      with True e "2.prems" show ?thesis by (simp add: is_words_def)
    qed
  next
    case False
    with "2.prems" have "\<forall>x\<in>set (cur @ [c]). \<not> py_isspace x" by simp
    from "2.IH"(3) [OF False this] False show ?thesis by simp
  qed
qed

lemma split_words: "is_words (py_split s)"
  by (simp add: py_split_def split_aux_words)

lemma split_aux_set: "p \<in> set (split_ws_aux cur s) \<Longrightarrow> set p \<subseteq> set cur \<union> set s"
proof (induction cur s rule: split_ws_aux.induct)
  case (1 cur)
  then show ?case by (simp split: if_splits)
next
  case (2 cur c cs)
  show ?case
  proof (cases "py_isspace c")
    case True
    show ?thesis
    proof (cases "cur = []")
      case c: True
      with True "2.prems" have "p \<in> set (split_ws_aux [] cs)" by simp
      from "2.IH"(1) [OF True c this] show ?thesis by auto
    next
      case False
      with True "2.prems" have "p = cur \<or> p \<in> set (split_ws_aux [] cs)" by simp
      then show ?thesis
      proof
        assume "p = cur" then show ?thesis by auto
      next
        assume "p \<in> set (split_ws_aux [] cs)"
        from "2.IH"(2) [OF True False this] show ?thesis by auto
      qed
    qed
  next
    case False
    with "2.prems" have "p \<in> set (split_ws_aux (cur @ [c]) cs)" by simp
    from "2.IH"(3) [OF False this] show ?thesis by auto
  qed
qed

lemma split_aux_word:
  "\<forall>c\<in>set w. \<not> py_isspace c \<Longrightarrow> split_ws_aux cur (w @ rest) = split_ws_aux (cur @ w) rest"
  by (induction w arbitrary: cur) simp_all

lemma split_join: "is_words ws \<Longrightarrow> py_split (py_join [32] ws) = ws"
proof (induction "[32::nat]" ws rule: py_join.induct)
  case 1
  then show ?case by (simp add: py_split_def)
next
  case (2 p)
  then have "\<forall>c\<in>set p. \<not> py_isspace c" "p \<noteq> []" by (simp_all add: is_words_def)
  with split_aux_word [of p "[]" "[]"] show ?case by (simp add: py_split_def)
next
  case (3 p q ps)
  then have p: "\<forall>c\<in>set p. \<not> py_isspace c" "p \<noteq> []" and r: "is_words (q # ps)"
    by (simp_all add: is_words_def)
  have sp: "py_isspace 32" by (simp add: py_isspace_def)
  have "py_split (py_join [32] (p # q # ps)) = split_ws_aux [] (p @ 32 # py_join [32] (q # ps))"
    by (simp add: py_split_def)
  also have "\<dots> = split_ws_aux p (32 # py_join [32] (q # ps))"
    using split_aux_word [OF p(1), of "[]"] by simp
  also have "\<dots> = p # py_split (py_join [32] (q # ps))"
    using p(2) sp by (simp add: py_split_def)
  finally show ?case using 3(1) [OF r] by simp
qed

lemma join_ends:
  "is_words ws \<Longrightarrow> ws \<noteq> [] \<Longrightarrow>
     py_join sep ws \<noteq> [] \<and> hd (py_join sep ws) = hd (hd ws) \<and> last (py_join sep ws) = last (last ws)"
proof (induction sep ws rule: py_join.induct)
  case (1 sep)
  then show ?case by simp
next
  case (2 sep p)
  then show ?case by (simp add: is_words_def)
next
  case (3 sep p q ps)
  then have "is_words (q # ps)" "p \<noteq> []" by (simp_all add: is_words_def)
  with 3(1) show ?case by simp
qed

lemma strip_join: "is_words ws \<Longrightarrow> py_strip (py_join [32] ws) = py_join [32] ws"
proof (cases ws)
  case Nil
  then show ?thesis by (simp add: py_strip_def)
next
  case (Cons p ps)
  assume w: "is_words ws"
  from Cons have ne: "ws \<noteq> []" by simp
  then have "hd ws \<in> set ws" "last ws \<in> set ws" by simp_all
  with w have h: "hd ws \<noteq> []" "\<forall>c\<in>set (hd ws). \<not> py_isspace c"
    and l: "last ws \<noteq> []" "\<forall>c\<in>set (last ws). \<not> py_isspace c"
    unfolding is_words_def by blast+
  from h have "\<not> py_isspace (hd (hd ws))" by simp
  moreover from l have "\<not> py_isspace (last (last ws))" by simp
  ultimately show ?thesis using join_ends [OF w ne, of "[32]"] by (simp add: strip_fixed_iff)
qed

lemma join_set: "set (py_join sep ws) \<subseteq> set sep \<union> \<Union> (set ` set ws)"
  by (induction sep ws rule: py_join.induct) auto

lemma linebreak_space: "is_linebreak c \<Longrightarrow> py_isspace c"
  by (auto simp: is_linebreak_def py_isspace_def)

lemma join_words_no_linebreak:
  "is_words ws \<Longrightarrow> list_all (\<lambda>c. \<not> is_linebreak c) (py_join [32] ws)"
  unfolding list_all_iff
proof
  fix c
  assume w: "is_words ws" and c: "c \<in> set (py_join [32] ws)"
  from c join_set [of "[32]" ws] have "c = 32 \<or> (\<exists>p\<in>set ws. c \<in> set p)" by auto
  then show "\<not> is_linebreak c"
  proof
    assume "c = 32"
    then show ?thesis by (simp add: is_linebreak_def)
  next
    assume "\<exists>p\<in>set ws. c \<in> set p"
    with w have "\<not> py_isspace c" unfolding is_words_def by blast
    then show ?thesis by (auto dest: linebreak_space)
  qed
qed

lemma splitlines_aux_plain:
  "list_all (\<lambda>c. \<not> is_linebreak c) s \<Longrightarrow>
     splitlines_aux cur s = (if cur @ s = [] then [] else [cur @ s])"
  by (induction cur s rule: splitlines_aux.induct) (auto simp: is_linebreak_def)

lemma join_splitlines_plain:
  "list_all (\<lambda>c. \<not> is_linebreak c) s \<Longrightarrow> py_join sep (py_splitlines s) = s"
  by (simp add: py_splitlines_def splitlines_aux_plain)

lemma splitlines_aux_pieces:
  "p \<in> set (splitlines_aux cur s) \<Longrightarrow> list_all (\<lambda>c. \<not> is_linebreak c) cur \<Longrightarrow>
     list_all (\<lambda>c. \<not> is_linebreak c) p \<and> set p \<subseteq> set cur \<union> set s"
proof (induction cur s rule: splitlines_aux.induct)
  case (1 cur)
  then show ?case by (simp split: if_splits)
next
  case (2 cur c)
  then show ?case by (auto split: if_splits)
next
  case (3 cur c d cs)
  show ?case
  proof (cases "c = 13 \<and> d = 10")
    case True
    with 3(4) have "p = cur \<or> p \<in> set (splitlines_aux [] cs)" by simp
    then show ?thesis
    proof
      assume "p = cur"
      with 3(5) show ?thesis by auto
    next
      assume "p \<in> set (splitlines_aux [] cs)"
      from 3(1) [OF True this] show ?thesis by auto
    qed
  next
    case nc: False
    show ?thesis
    proof (cases "is_linebreak c")
      case True
      with nc 3(4) have "p = cur \<or> p \<in> set (splitlines_aux [] (d # cs))" by auto
      then show ?thesis
      proof
        assume "p = cur"
        with 3(5) show ?thesis by auto
      next
        assume "p \<in> set (splitlines_aux [] (d # cs))"
        from 3(2) [OF nc True this] show ?thesis by auto
      qed
    next
      case False
      with nc 3(4) have m: "p \<in> set (splitlines_aux (cur @ [c]) (d # cs))" by auto
      from False 3(5) have "list_all (\<lambda>c. \<not> is_linebreak c) (cur @ [c])" by simp
      from 3(3) [OF nc False m this] show ?thesis by auto
    qed
  qed
qed

lemma join_splitlines_props:
  "list_all (\<lambda>c. \<not> is_linebreak c) (py_join [32] (py_splitlines x))
   \<and> set (py_join [32] (py_splitlines x)) \<subseteq> insert 32 (set x)"
proof -
  have p: "list_all (\<lambda>c. \<not> is_linebreak c) p \<and> set p \<subseteq> set x" if "p \<in> set (py_splitlines x)" for p
    using splitlines_aux_pieces [of p "[]" x] that by (simp add: py_splitlines_def)
  have n: "\<not> is_linebreak 32" by (simp add: is_linebreak_def)
  have "c = 32 \<or> (c \<in> set x \<and> \<not> is_linebreak c)" if "c \<in> set (py_join [32] (py_splitlines x))" for c
  proof -
    from that join_set [of "[32]" "py_splitlines x"]
    have "c = 32 \<or> (\<exists>p\<in>set (py_splitlines x). c \<in> set p)" by auto
    then show ?thesis
    proof
      assume "c = 32" then show ?thesis by simp
    next
      assume "\<exists>p\<in>set (py_splitlines x). c \<in> set p"
      then obtain p where "p \<in> set (py_splitlines x)" "c \<in> set p" by blast
      with p [of p] show ?thesis by (auto simp: list_all_iff)
    qed
  qed
  with n show ?thesis unfolding list_all_iff by blast
qed

lemma title_join: "py_title (py_join [32] ws) = py_join [32] (map py_title ws)"
proof (induction "[32::nat]" ws rule: py_join.induct)
  case 1
  then show ?case by (simp add: py_title_def)
next
  case (2 p)
  then show ?case by simp
next
  case (3 p q ps)
  have c: "\<not> is_cased 32" "title_cp 32 = [32]" "lower_cp 32 = 32"
    by (simp_all add: is_cased_def is_alpha_ascii_def is_lower_ascii_def is_upper_ascii_def
        title_cp_def lower_cp_def)
  have "py_title (py_join [32] (p # q # ps)) = title_aux False (p @ 32 # py_join [32] (q # ps))"
    by (simp add: py_title_def)
  also have "\<dots> = title_aux False p @ 32 # title_aux False (py_join [32] (q # ps))"
    using c by (simp add: title_aux_append)
  finally show ?case using 3 by (simp add: py_title_def)
qed

lemma month_cut_set: "set (month_cut_aux prev s) \<subseteq> set s"
proof (induction s arbitrary: prev)
  case Nil
  then show ?case by simp
next
  case (Cons c cs)
  show ?case
  proof (cases "boundary prev (c # cs) \<and> month_token (c # cs) \<and> 10 \<notin> set (butlast (c # cs))")
    case True
    then have m: "month_cut_aux prev (c # cs) = (if last (c # cs) = 10 then [10] else [])"
      by (subst month_cut_aux.simps) (simp only: if_True simp_thms)
    have "last (c # cs) \<in> set (c # cs)" by (rule last_in_set) simp
    then have "set (if last (c # cs) = 10 then [10] else []) \<subseteq> set (c # cs)"
      by (cases "last (c # cs) = 10") simp_all
    then show ?thesis by (simp only: m)
  next
    case False
    then have "month_cut_aux prev (c # cs) = c # month_cut_aux (Some c) cs"
      by (subst month_cut_aux.simps) (simp only: if_False simp_thms)
    with Cons [of "Some c"] show ?thesis by auto
  qed
qed

lemma lit_at: "lit '' @ '' = [32, 64, 32]"
  by (simp add: lit_def)

lemma ascii_subset: "ascii_text s \<Longrightarrow> set t \<subseteq> set s \<Longrightarrow> ascii_text t"
  by (auto simp: ascii_text_iff)

lemma no_linebreak_subset:
  "list_all (\<lambda>c. \<not> is_linebreak c) s \<Longrightarrow> set t \<subseteq> set s \<Longrightarrow> list_all (\<lambda>c. \<not> is_linebreak c) t"
  by (auto simp: list_all_iff)

lemma takeWhile_at: "64 \<notin> set u \<Longrightarrow> takeWhile (\<lambda>c. c \<noteq> (64::nat)) (u @ 64 # v) = u"
  by (induction u) auto

lemma dropWhile_at: "64 \<notin> set u \<Longrightarrow> dropWhile (\<lambda>c. c \<noteq> (64::nat)) (u @ 64 # v) = 64 # v"
  by (induction u) auto

lemma set_tl_dropWhile: "set (tl (dropWhile P s)) \<subseteq> set s"
proof -
  have "set (tl ys) \<subseteq> set ys" for ys :: "'a list" by (cases ys) auto
  then have "set (tl (dropWhile P s)) \<subseteq> set (dropWhile P s)" .
  also have "\<dots> \<subseteq> set s" by (auto dest: set_dropWhileD)
  finally show ?thesis .
qed

lemma title_words:
  assumes "is_words ws" "\<forall>w\<in>set ws. ascii_text w"
  shows "is_words (map py_title ws)"
  unfolding is_words_def
proof
  fix v assume "v \<in> set (map py_title ws)"
  then obtain w where w: "w \<in> set ws" "v = py_title w" by auto
  with assms have a: "ascii_text w" and ne: "w \<noteq> []" and ns: "\<forall>c\<in>set w. \<not> py_isspace c"
    by (auto simp: is_words_def)
  from title_length [OF a] ne w(2) have "v \<noteq> []" by auto
  moreover have "\<not> py_isspace c" if "c \<in> set v" for c
  proof -
    from that have "lower_cp c \<in> set (map lower_cp v)" by simp
    with title_lower [OF a] w(2) have "lower_cp c \<in> set (map lower_cp w)" by simp
    then obtain d where "d \<in> set w" "lower_cp d = lower_cp c" by auto
    with ns have "\<not> py_isspace (lower_cp c)" by (metis space_lower)
    then show ?thesis by simp
  qed
  ultimately show "v \<noteq> [] \<and> (\<forall>c\<in>set v. \<not> py_isspace c)" by blast
qed

lemma normalize_plain:
  assumes "list_all (\<lambda>c. \<not> is_linebreak c) r"
  shows "normalize_game_name r =
     (if 64 \<in> set (py_strip r)
      then py_title (py_strip (takeWhile (\<lambda>c. c \<noteq> 64) (py_strip r))) @ [32, 64, 32]
             @ py_title (py_strip (month_cut (py_strip (tl (dropWhile (\<lambda>c. c \<noteq> 64) (py_strip r))))))
      else py_title (py_join [32] (py_split (py_strip r))))"
  using assms by (simp add: normalize_game_name_def lit_space lit_at join_splitlines_plain Let_def)

lemma normalize_no_at:
  assumes a: "ascii_text c" and n: "64 \<notin> set c"
  shows "normalize_game_name (py_title (py_join [32] (py_split c))) = py_title (py_join [32] (py_split c))"
proof -
  define ws where "ws = py_split c"
  define r where "r = py_title (py_join [32] ws)"
  have w: "is_words ws" by (simp add: ws_def split_words)
  have wa: "\<forall>w\<in>set ws. ascii_text w"
    using split_aux_set [of _ "[]" c] a by (auto simp: ws_def py_split_def intro: ascii_subset)
  have ja: "ascii_text (py_join [32] ws)"
    using join_set [of "[32]" ws] wa by (auto simp: ascii_text_iff)
  have jn: "64 \<notin> set (py_join [32] ws)"
  proof
    assume "64 \<in> set (py_join [32] ws)"
    with join_set [of "[32]" ws] obtain p where "p \<in> set ws" "64 \<in> set p" by auto
    with split_aux_set [of p "[]" c] n show False by (auto simp: ws_def py_split_def)
  qed
  have r': "r = py_join [32] (map py_title ws)" by (simp add: r_def title_join)
  have w': "is_words (map py_title ws)" using w wa by (rule title_words)
  have lb: "list_all (\<lambda>c. \<not> is_linebreak c) r"
    unfolding r' using w' by (rule join_words_no_linebreak)
  have st: "py_strip r = r" unfolding r' using w' by (rule strip_join)
  have na: "64 \<notin> set r" unfolding r_def using ja jn by (rule title_no_at)
  have sp: "py_split r = map py_title ws" unfolding r' using w' by (rule split_join)
  have "normalize_game_name r = py_title (py_join [32] (py_split r))"
    using na by (simp add: normalize_plain [OF lb] st)
  also have "\<dots> = py_title (py_join [32] (map py_title ws))" by (simp only: sp)
  also have "\<dots> = py_title r" by (simp only: r')
  also have "\<dots> = r" unfolding r_def using ja by (rule title_idem)
  finally show ?thesis by (simp add: r_def ws_def)
qed

lemma normalize_with_at:
  assumes a: "ascii_text c" and lb: "list_all (\<lambda>c. \<not> is_linebreak c) c"
  defines "A \<equiv> py_title (py_strip (takeWhile (\<lambda>c. c \<noteq> 64) c))"
    and "B \<equiv> py_title (py_strip (month_cut (py_strip (tl (dropWhile (\<lambda>c. c \<noteq> 64) c)))))"
  shows "normalize_game_name (A @ [32, 64, 32] @ B) = A @ [32, 64, 32] @ B"
proof -
  define a0 where "a0 = takeWhile (\<lambda>c. c \<noteq> (64::nat)) c"
  define b1 where "b1 = py_strip (tl (dropWhile (\<lambda>c. c \<noteq> (64::nat)) c))"
  define q where "q = py_strip (month_cut b1)"
  have A: "A = py_title (py_strip a0)" and B: "B = py_title q"
    by (simp_all add: A_def B_def a0_def b1_def q_def)
  have a0c: "set (py_strip a0) \<subseteq> set c"
    using set_strip [of a0] by (auto simp: a0_def dest: set_takeWhileD)
  have b1c: "set b1 \<subseteq> set c"
    using set_strip [of "tl (dropWhile (\<lambda>c. c \<noteq> 64) c)"] set_tl_dropWhile [of "\<lambda>c. c \<noteq> 64" c]
    by (auto simp: b1_def)
  have qc: "set q \<subseteq> set c"
    using set_strip [of "month_cut b1"] month_cut_set [of None b1] b1c by (auto simp: q_def month_cut_def)
  have sa: "ascii_text (py_strip a0)" using a a0c by (rule ascii_subset)
  have qa: "ascii_text q" using a qc by (rule ascii_subset)
  have a0n: "64 \<notin> set (py_strip a0)"
    using set_strip [of a0] by (auto simp: a0_def dest: set_takeWhileD)
  have An: "64 \<notin> set A" unfolding A using sa a0n by (rule title_no_at)
  have As: "py_strip A = A" unfolding A using sa by (rule title_stripped) simp
  have Bs: "py_strip B = B" unfolding B using qa by (rule title_stripped) (simp add: q_def)
  have Al: "list_all (\<lambda>c. \<not> is_linebreak c) A"
    unfolding A using sa by (rule title_no_linebreak) (rule no_linebreak_subset [OF lb a0c])
  have Bl: "list_all (\<lambda>c. \<not> is_linebreak c) B"
    unfolding B using qa by (rule title_no_linebreak) (rule no_linebreak_subset [OF lb qc])
  have "10 \<notin> set b1"
    using no_linebreak_subset [OF lb b1c] by (auto simp: list_all_iff is_linebreak_def)
  then have "no_month None (month_cut b1)" unfolding month_cut_def by (rule month_cut_no_month)
  then have "no_month None q" unfolding q_def by (rule no_month_strip)
  with qa have "no_month None B" unfolding B by (rule no_month_title)
  then have Bc: "month_cut B = B" unfolding month_cut_def by (rule no_month_fixed)
  have At: "py_title A = A" unfolding A using sa by (rule title_idem)
  have Bt: "py_title B = B" unfolding B using qa by (rule title_idem)
  define r where "r = A @ [32, 64, 32] @ B"
  have nl: "\<not> is_linebreak 32" "\<not> is_linebreak 64" by (simp_all add: is_linebreak_def)
  have sp: "py_isspace 32" "\<not> py_isspace 64" by (simp_all add: py_isspace_def)
  have rl: "list_all (\<lambda>c. \<not> is_linebreak c) r" using Al Bl nl by (simp add: r_def)
  have "r = (A @ [32]) @ 64 # (32 # B)" by (simp add: r_def)
  then have rs: "py_strip r = lstrip (A @ [32]) @ 64 # rstrip (32 # B)"
    using strip_mid [OF sp(2), of "A @ [32]" "32 # B"] by simp
  define u where "u = lstrip (A @ [32])"
  define v where "v = rstrip (32 # B)"
  have un: "64 \<notin> set u"
    using An by (auto simp: u_def lstrip_def dest: set_dropWhileD)
  have us: "py_strip u = A"
  proof -
    have "py_strip u = py_strip (A @ [32])" by (simp add: u_def strip_lstrip)
    also have "\<dots> = py_strip A" using sp(1) by (simp add: strip_append_space)
    finally show ?thesis by (simp add: As)
  qed
  have vs: "py_strip v = B"
  proof -
    have "py_strip v = py_strip (32 # B)" by (simp add: v_def strip_rstrip)
    also have "\<dots> = py_strip B" using sp(1) by (simp add: strip_space_Cons)
    finally show ?thesis by (simp add: Bs)
  qed
  have "normalize_game_name r
      = py_title (py_strip u) @ [32, 64, 32] @ py_title (py_strip (month_cut (py_strip v)))"
  proof -
    have m: "64 \<in> set (py_strip r)" by (simp add: rs)
    from un have t: "takeWhile (\<lambda>c. c \<noteq> 64) (py_strip r) = u"
      and d: "dropWhile (\<lambda>c. c \<noteq> 64) (py_strip r) = 64 # v"
      unfolding rs u_def [symmetric] v_def [symmetric]
      by (simp_all add: takeWhile_at dropWhile_at)
    from m show ?thesis
      by (simp add: normalize_plain [OF rl] t d)
  qed
  also have "\<dots> = r" by (simp add: us vs Bc Bs At Bt r_def)
  finally show ?thesis by (simp add: r_def)
qed




section \<open>The display name of a schedule row\<close>

lemma row_dt_local_Some:
  "0 \<le> h \<Longrightarrow> h \<le> 23 \<Longrightarrow> 0 \<le> m \<Longrightarrow> m \<le> 59 \<Longrightarrow>
     row_dt_local db (Some gd) (Some h) (Some m) tzinfo = db tzinfo gd h m"
  by (simp add: row_dt_local_def)

lemma row_dt_local_None:
  "game_date = None \<or> hh = None \<or> mm = None \<Longrightarrow> row_dt_local db game_date hh mm tzinfo = None"
  by (auto simp: row_dt_local_def split: option.splits)

lemma row_dt_local_invalid:
  "h < 0 \<or> h > 23 \<or> m < 0 \<or> m > 59 \<Longrightarrow> row_dt_local db game_date (Some h) (Some m) tzinfo = None"
  by (auto simp: row_dt_local_def split: option.splits)

lemmas name_eval = normalize_game_name_def text_eval regex_eval month_token_def month_name_rest_def
  month_names_def ci_prefix_def month_cut_def py_title_def title_cp_def is_cased_def
  py_splitlines_def is_linebreak_def

lemma normalize_a_b: "normalize_game_name (lit ''a'' @ lit '' @ '' @ lit ''b'') = lit ''A @ B''"
  by (simp add: name_eval)





end
